theory Spec2Isabelle
  imports Main "HOL-Library.Word"
begin

section \<open>JavaScript values\<close>

text \<open>
  The validator receives raw field values of any runtime kind. A JavaScript string
  is a sequence of UTF-16 code units; a Number is an IEEE double, of which the model
  keeps the five special values apart and the nonzero finite ones as mantissa and binary
  exponent (no arithmetic is done on them). Arrays and plain objects hold values; the
  properties of a plain object are its own enumerable properties, in order. Files and functions are
  opaque handles. A Proxy is given by its target; what the traps of its handler do is
  user code, outside the model. A revoked Proxy (of a target that is not callable) is a
  value of its own: every operation that looks inside it throws a TypeError. Type tags
  and the mode are ASCII literals, written as HOL strings.
\<close>

type_synonym jsstring = "16 word list"

datatype jsnum =
    NaN
  | PosInfinity
  | NegInfinity
  | PosZero
  | NegZero
  | Finite int int

datatype jsvalue =
    JUndefined
  | JNull
  | JBoolean bool
  | JNumber jsnum
  | JString jsstring
  | JBigInt int
  | JSymbol jsstring
  | JFunction nat
  | JArray "jsvalue list"
  | JFile nat
  | JObject "(jsstring \<times> jsvalue) list"
  | JProxy jsvalue
  | JRevokedProxy

datatype js_exception =
    TypeError
  | ReferenceError
  | RuleNotFound
  | Thrown jsvalue
  | Unmodelled

definition js_str :: "string \<Rightarrow> jsstring" where
  "js_str s = map (\<lambda>c. of_nat (of_char c)) s"

text \<open>
  The \<open>typeof\<close> operator. A Proxy is a function when its target is one, and an object
  otherwise.
\<close>

fun js_typeof :: "jsvalue \<Rightarrow> string" where
  "js_typeof JUndefined = ''undefined''"
| "js_typeof JNull = ''object''"
| "js_typeof (JBoolean _) = ''boolean''"
| "js_typeof (JNumber _) = ''number''"
| "js_typeof (JString _) = ''string''"
| "js_typeof (JBigInt _) = ''bigint''"
| "js_typeof (JSymbol _) = ''symbol''"
| "js_typeof (JFunction _) = ''function''"
| "js_typeof (JArray _) = ''object''"
| "js_typeof (JFile _) = ''object''"
| "js_typeof (JObject _) = ''object''"
| "js_typeof (JProxy target) =
     (if js_typeof target = ''function'' then ''function'' else ''object'')"
| "js_typeof JRevokedProxy = ''object''"

subsection \<open>\<open>String.prototype.trim\<close>\<close>

text \<open>
  ECMAScript's WhiteSpace and LineTerminator code points, all of them in the Basic
  Multilingual Plane, so each is one code unit.
\<close>

definition is_white_space :: "16 word \<Rightarrow> bool" where
  "is_white_space c \<longleftrightarrow>
     c = 0x9 \<or> c = 0xA \<or> c = 0xB \<or> c = 0xC \<or> c = 0xD \<or> c = 0x20 \<or> c = 0xA0
     \<or> c = 0x1680 \<or> (0x2000 \<le> c \<and> c \<le> 0x200A)
     \<or> c = 0x2028 \<or> c = 0x2029 \<or> c = 0x202F \<or> c = 0x205F \<or> c = 0x3000
     \<or> c = 0xFEFF"

definition trimStart :: "jsstring \<Rightarrow> jsstring" where
  "trimStart s = dropWhile is_white_space s"

definition trimEnd :: "jsstring \<Rightarrow> jsstring" where
  "trimEnd s = rev (dropWhile is_white_space (rev s))"

definition trim :: "jsstring \<Rightarrow> jsstring" where
  "trim s = trimEnd (trimStart s)"

text \<open>
  The method call \<open>value.trim()\<close> on a value of any kind. On a string it is
  \<open>String.prototype.trim\<close>. Reading a property of \<open>undefined\<close> or \<open>null\<close> throws a
  TypeError, and so does calling a property that is absent or not callable, which is the
  case for every other value here except an object whose own property \<open>trim\<close> holds a
  function, and a Proxy: what that function or the handler does is outside the model.
\<close>

fun call_trim :: "jsvalue \<Rightarrow> js_exception + jsvalue" where
  "call_trim (JString s) = Inr (JString (trim s))"
| "call_trim (JObject props) =
     (case map_of props (js_str ''trim'') of
        Some (JFunction _) \<Rightarrow> Inl Unmodelled
      | _ \<Rightarrow> Inl TypeError)"
| "call_trim (JProxy _) = Inl Unmodelled"
| "call_trim _ = Inl TypeError"

subsection \<open>\<open>parseFloat\<close>\<close>

text \<open>
  \<open>parseFloat(x)\<close> converts its argument to a string and parses the longest prefix
  that is a decimal literal, giving NaN when there is none. The string form of a Number
  is one of \<open>"NaN"\<close>, \<open>"Infinity"\<close>, \<open>"-Infinity"\<close>, \<open>"0"\<close> (for both zeros), or the
  shortest decimal literal that reads back as the same double; \<open>number_text\<close> is the
  abstract syntax of these strings, a literal being named by the double it denotes.
\<close>

datatype number_text =
    Text_NaN
  | Text_Infinity
  | Text_NegInfinity
  | Text_Zero
  | Text_Decimal int int

fun Number_toString :: "jsnum \<Rightarrow> number_text" where
  "Number_toString NaN = Text_NaN"
| "Number_toString PosInfinity = Text_Infinity"
| "Number_toString NegInfinity = Text_NegInfinity"
| "Number_toString PosZero = Text_Zero"
| "Number_toString NegZero = Text_Zero"
| "Number_toString (Finite m e) = Text_Decimal m e"

fun parse_number_text :: "number_text \<Rightarrow> jsnum" where
  "parse_number_text Text_NaN = NaN"
| "parse_number_text Text_Infinity = PosInfinity"
| "parse_number_text Text_NegInfinity = NegInfinity"
| "parse_number_text Text_Zero = PosZero"
| "parse_number_text (Text_Decimal m e) = Finite m e"

text \<open>
  The call \<open>parseFloat(value)\<close>. The source passes a Number. The strings
  \<open>"undefined"\<close>, \<open>"null"\<close>, \<open>"true"\<close> and \<open>"false"\<close> start with no decimal literal;
  a Symbol has no string form and a revoked Proxy cannot be converted (TypeError).
  Parsing the text of a string, a BigInt, an array, an object or a function is outside
  the model.
\<close>

fun parseFloat :: "jsvalue \<Rightarrow> js_exception + jsvalue" where
  "parseFloat (JNumber n) = Inr (JNumber (parse_number_text (Number_toString n)))"
| "parseFloat JUndefined = Inr (JNumber NaN)"
| "parseFloat JNull = Inr (JNumber NaN)"
| "parseFloat (JBoolean _) = Inr (JNumber NaN)"
| "parseFloat (JSymbol _) = Inl TypeError"
| "parseFloat JRevokedProxy = Inl TypeError"
| "parseFloat _ = Inl Unmodelled"

section \<open>normalizeValue\<close>

record normalizedValueType =
  type :: string
  value' :: jsvalue

text \<open>
  The host the module is loaded in, as far as the module looks at it: whether a CommonJS
  \<open>module.exports\<close> exists, and whether a global \<open>File\<close> exists.
\<close>

record hostType =
  module_exports :: bool
  File_global :: bool

text \<open>
  The module constant \<open>mode\<close>: \<open>"node"\<close> when \<open>module.exports\<close> exists, \<open>"browser"\<close>
  otherwise.
\<close>

definition mode :: "hostType \<Rightarrow> string" where
  "mode host = (if module_exports host then ''node'' else ''browser'')"

text \<open>
  \<open>Array.isArray(value)\<close>: a Proxy is an array when its target is one, without any trap
  being called, and a revoked Proxy makes it throw a TypeError.
\<close>

fun isArray :: "jsvalue \<Rightarrow> js_exception + bool" where
  "isArray (JArray _) = Inr True"
| "isArray (JProxy target) = isArray target"
| "isArray JRevokedProxy = Inl TypeError"
| "isArray _ = Inr False"

text \<open>
  \<open>value instanceof File\<close>: evaluating the name \<open>File\<close> throws a ReferenceError in a
  host that has no such global. The prototype chain of a revoked Proxy cannot be read, and
  reading that of a Proxy calls the trap of its handler, which is outside the model.
\<close>

fun instanceof_File :: "hostType \<Rightarrow> jsvalue \<Rightarrow> js_exception + bool" where
  "instanceof_File host value =
     (if \<not> File_global host then Inl ReferenceError
      else (case value of
              JFile _ \<Rightarrow> Inr True
            | JProxy _ \<Rightarrow> Inl Unmodelled
            | JRevokedProxy \<Rightarrow> Inl TypeError
            | _ \<Rightarrow> Inr False))"

text \<open>The values that are a Proxy, revoked or not.\<close>

fun is_Proxy :: "jsvalue \<Rightarrow> bool" where
  "is_Proxy (JProxy _) = True"
| "is_Proxy JRevokedProxy = True"
| "is_Proxy _ = False"

text \<open>
  \<open>[undefined, null].indexOf(value)\<close>: strict equality with \<open>undefined\<close> holds for
  \<open>undefined\<close> only, and with \<open>null\<close> for \<open>null\<close> only.
\<close>

fun indexOf_undefined_null :: "jsvalue \<Rightarrow> int" where
  "indexOf_undefined_null JUndefined = 0"
| "indexOf_undefined_null JNull = 1"
| "indexOf_undefined_null _ = - 1"

text \<open>
  The three tests of the default branch run one after the other; the second evaluates
  \<open>value instanceof File\<close> only when the mode is \<open>"browser"\<close>. An exception thrown by
  a test leaves the function.
\<close>

definition normalizeValue :: "hostType \<Rightarrow> jsvalue \<Rightarrow> js_exception + normalizedValueType" where
  "normalizeValue host value =
     (let type0 = js_typeof value in
      if type0 = ''string'' then
        (case call_trim value of
           Inl e \<Rightarrow> Inl e
         | Inr normal \<Rightarrow> Inr \<lparr>type = type0, value' = normal\<rparr>)
      else if type0 = ''number'' then
        (case parseFloat value of
           Inl e \<Rightarrow> Inl e
         | Inr normal \<Rightarrow> Inr \<lparr>type = type0, value' = normal\<rparr>)
      else
        (case isArray value of
           Inl e \<Rightarrow> Inl e
         | Inr is_array \<Rightarrow>
             (let type1 = (if is_array then ''array'' else type0) in
              case (if mode host = ''browser'' then instanceof_File host value else Inr False) of
                Inl e \<Rightarrow> Inl e
              | Inr is_file \<Rightarrow>
                  (let type2 = (if is_file then ''file'' else type1) in
                   if indexOf_undefined_null value > - 1
                   then Inr \<lparr>type = ''nullish'', value' = JNull\<rparr>
                   else Inr \<lparr>type = type2, value' = value\<rparr>))))"

section \<open>validate\<close>

text \<open>
  A rule evaluator is a JavaScript function from the normalized value to a result
  \<open>{ pass, message }\<close>. It is arbitrary code: it may throw, and it may act on everything
  it can reach. That is the world \<open>'w\<close> outside the validator, to which the objects
  behind \<open>data\<close> and \<open>rules\<close> belong, and the normalized value it is handed, one object
  shared by the rules of a field. So an evaluator takes the normalized value and the world
  and returns its result, or the exception it threw, with the normalized value and the
  world as it left them. What a rule cannot reach is the record \<open>validation\<close>, local to
  \<open>validate\<close>, and the host's own objects are taken as the host made them.
\<close>

record resultType =
  pass :: bool
  message :: jsstring

type_synonym 'w ruleType =
  "normalizedValueType \<Rightarrow> 'w \<Rightarrow> (js_exception + resultType) \<times> normalizedValueType \<times> 'w"

text \<open>
  The object behind \<open>data\<close>: its own properties, and what its prototype chain gives for
  a name that is not an own property. The properties hold values: reading one calls no
  code. The parameter \<open>data\<close> is a reference, so the model reads the object from the
  world each time.
\<close>

record dataType =
  own :: "jsstring \<rightharpoonup> jsvalue"
  inherited :: "jsstring \<rightharpoonup> jsvalue"

text \<open>
  The property read \<open>data[field]\<close>: the own property, else the inherited one, else
  \<open>undefined\<close>.
\<close>

definition data_get :: "dataType \<Rightarrow> jsstring \<Rightarrow> jsvalue" where
  "data_get data field =
     (case own data field of
        Some v \<Rightarrow> v
      | None \<Rightarrow> (case inherited data field of Some v \<Rightarrow> v | None \<Rightarrow> JUndefined))"

text \<open>
  What an object written as a literal inherits from \<open>Object.prototype\<close>: the standard
  methods, and the accessor \<open>__proto__\<close>, which reads as \<open>Object.prototype\<close> itself,
  an object that has no enumerable property.
\<close>

definition Object_prototype :: "jsstring \<rightharpoonup> jsvalue" where
  "Object_prototype =
     map_of [(js_str ''constructor'', JFunction 0),
             (js_str ''hasOwnProperty'', JFunction 1),
             (js_str ''isPrototypeOf'', JFunction 2),
             (js_str ''propertyIsEnumerable'', JFunction 3),
             (js_str ''toLocaleString'', JFunction 4),
             (js_str ''toString'', JFunction 5),
             (js_str ''valueOf'', JFunction 6),
             (js_str ''__defineGetter__'', JFunction 7),
             (js_str ''__defineSetter__'', JFunction 8),
             (js_str ''__lookupGetter__'', JFunction 9),
             (js_str ''__lookupSetter__'', JFunction 10),
             (js_str ''__proto__'', JObject [])]"

definition plain_object :: "(jsstring \<rightharpoonup> jsvalue) \<Rightarrow> dataType" where
  "plain_object props = \<lparr>own = props, inherited = Object_prototype\<rparr>"

text \<open>
  The object behind \<open>rules\<close>, read from the world: its keys in the order in which
  \<open>for ... in\<close> visits them, each with the identity of the array it holds, and the
  elements of each array.
\<close>

record 'w rulesType =
  properties :: "'w \<Rightarrow> (jsstring \<times> nat) list"
  elements :: "'w \<Rightarrow> nat \<Rightarrow> 'w ruleType list"

record validationType =
  errors :: "jsstring \<rightharpoonup> jsstring"
  valid :: bool

text \<open>
  The assignment \<open>validation.errors[field] = result.message\<close>. \<open>errors\<close> is an object
  written as a literal, so the key \<open>__proto__\<close> is not stored: the assignment reaches the
  setter inherited from \<open>Object.prototype\<close>, which ignores a string.
\<close>

definition set_error ::
  "jsstring \<Rightarrow> jsstring \<Rightarrow> (jsstring \<rightharpoonup> jsstring) \<Rightarrow> (jsstring \<rightharpoonup> jsstring)" where
  "set_error field msg errs = (if field = js_str ''__proto__'' then errs else errs(field \<mapsto> msg))"

text \<open>
  The journal is not part of the program. It records each call of a rule that the loops
  make: the field, the index in the array, the normalized value and the world handed to
  the rule, what the rule returned or threw, and the world it left.
\<close>

record 'w callType =
  call_field :: jsstring
  call_index :: nat
  call_argument :: normalizedValueType
  call_before :: 'w
  call_outcome :: "js_exception + resultType"
  call_after :: 'w

text \<open>
  \<open>rules[field].forEach((rule) => ...)\<close> on the array \<open>a\<close>. \<open>forEach\<close> fixes the
  indices to visit when it starts, and at each index reads the array as it is then: an
  index that no longer exists is skipped. The callback hands the one normalized value to
  the rule; an exception thrown by the rule leaves the loop at once.
\<close>

fun forEach_at ::
  "'w rulesType \<Rightarrow> jsstring \<Rightarrow> nat \<Rightarrow> nat list \<Rightarrow> normalizedValueType \<Rightarrow> validationType \<Rightarrow> 'w
   \<Rightarrow> 'w callType list \<Rightarrow> (js_exception + validationType) \<times> 'w \<times> 'w callType list" where
  "forEach_at rules field a [] normalizedValue validation w journal = (Inr validation, w, journal)"
| "forEach_at rules field a (k # ks) normalizedValue validation w journal =
     (if k < length (elements rules w a) then
        (case (elements rules w a ! k) normalizedValue w of
           (Inl e, normalizedValue1, w1) \<Rightarrow>
             (Inl e, w1,
              journal @ [\<lparr>call_field = field, call_index = k, call_argument = normalizedValue,
                           call_before = w, call_outcome = Inl e, call_after = w1\<rparr>])
         | (Inr result, normalizedValue1, w1) \<Rightarrow>
             forEach_at rules field a ks normalizedValue1
               (if \<not> pass result
                then validation\<lparr>valid := False,
                       errors := set_error field (message result) (errors validation)\<rparr>
                else validation)
               w1
               (journal @ [\<lparr>call_field = field, call_index = k, call_argument = normalizedValue,
                             call_before = w, call_outcome = Inr result, call_after = w1\<rparr>]))
      else forEach_at rules field a ks normalizedValue validation w journal)"

definition forEach ::
  "'w rulesType \<Rightarrow> jsstring \<Rightarrow> nat \<Rightarrow> normalizedValueType \<Rightarrow> validationType \<Rightarrow> 'w
   \<Rightarrow> 'w callType list \<Rightarrow> (js_exception + validationType) \<times> 'w \<times> 'w callType list" where
  "forEach rules field a normalizedValue validation w journal =
     forEach_at rules field a [0..<length (elements rules w a)] normalizedValue validation w
       journal"

text \<open>
  The loop \<open>for (const field in rules)\<close> over the keys that \<open>rules\<close> had when the loop
  started. A key deleted in the meantime is not visited; \<open>data[field]\<close> and
  \<open>rules[field]\<close> are read when the key is visited. (Whether a key added in the
  meantime is visited is left open by ECMAScript; here it is not.)
\<close>

fun for_in_rules ::
  "hostType \<Rightarrow> ('w \<Rightarrow> dataType) \<Rightarrow> 'w rulesType \<Rightarrow> jsstring list \<Rightarrow> validationType \<Rightarrow> 'w
   \<Rightarrow> 'w callType list \<Rightarrow> (js_exception + validationType) \<times> 'w \<times> 'w callType list" where
  "for_in_rules host data rules [] validation w journal = (Inr validation, w, journal)"
| "for_in_rules host data rules (field # rest) validation w journal =
     (case map_of (properties rules w) field of
        None \<Rightarrow> for_in_rules host data rules rest validation w journal
      | Some a \<Rightarrow>
          (case normalizeValue host (data_get (data w) field) of
             Inl e \<Rightarrow> (Inl e, w, journal)
           | Inr normalizedValue \<Rightarrow>
               (case forEach rules field a normalizedValue validation w journal of
                  (Inl e, w1, journal1) \<Rightarrow> (Inl e, w1, journal1)
                | (Inr validation1, w1, journal1) \<Rightarrow>
                    for_in_rules host data rules rest validation1 w1 journal1)))"

text \<open>
  \<open>validate(data, rules = {})\<close>: an omitted second argument is a new empty object. The
  outcome is the validation record or the exception, with the world and the journal.
\<close>

definition validate ::
  "hostType \<Rightarrow> ('w \<Rightarrow> dataType) \<Rightarrow> 'w rulesType option \<Rightarrow> 'w
   \<Rightarrow> (js_exception + validationType) \<times> 'w \<times> 'w callType list" where
  "validate host data rules_arg w =
     (let rules = (case rules_arg of
                     None \<Rightarrow> \<lparr>properties = (\<lambda>w. []), elements = (\<lambda>w a. [])\<rparr>
                   | Some r \<Rightarrow> r);
          validation = \<lparr>errors = Map.empty, valid = True\<rparr>
      in for_in_rules host data rules (map fst (properties rules w)) validation w [])"

subsection \<open>Rule-sets and rules that stay as they are\<close>

text \<open>
  A rule-set written as a list of fields, each with its list of rules, which no rule can
  reach: the array of the \<open>i\<close>-th field has the identity \<open>i\<close>.
\<close>

definition fixed_rules :: "(jsstring \<times> 'w ruleType list) list \<Rightarrow> 'w rulesType" where
  "fixed_rules rs =
     \<lparr>properties = (\<lambda>w. zip (map fst rs) [0..<length rs]),
      elements = (\<lambda>w a. if a < length rs then snd (rs ! a) else [])\<rparr>"

text \<open>The fields of a rule-set with their rule lists, as they are in a world.\<close>

definition entries :: "'w rulesType \<Rightarrow> 'w \<Rightarrow> (jsstring \<times> 'w ruleType list) list" where
  "entries rules w = map (\<lambda>(f, a). (f, elements rules w a)) (properties rules w)"

text \<open>
  A rule that leaves alone what the validator reads: it returns the normalized value as it
  got it, and leaves a part of the world (seen through \<open>view\<close>) as it was.
\<close>

definition keeps_argument :: "'w ruleType \<Rightarrow> bool" where
  "keeps_argument rule \<longleftrightarrow> (\<forall>nv w. fst (snd (rule nv w)) = nv)"

definition leaves :: "('w \<Rightarrow> 'a) \<Rightarrow> 'w ruleType \<Rightarrow> bool" where
  "leaves view rule \<longleftrightarrow> (\<forall>nv w. view (snd (snd (rule nv w))) = view w)"



subsection \<open>Reading the journal\<close>

text \<open>The messages of the failing results for one field, in the order of the calls.\<close>

fun failing_messages :: "jsstring \<Rightarrow> 'w callType list \<Rightarrow> jsstring list" where
  "failing_messages f [] = []"
| "failing_messages f (c # cs) =
     (case call_outcome c of
        Inr result \<Rightarrow>
          (if call_field c = f \<and> \<not> pass result then message result # failing_messages f cs
           else failing_messages f cs)
      | Inl e \<Rightarrow> failing_messages f cs)"


text \<open>The calls follow one another: each starts in the world the one before left.\<close>

fun chained :: "'w \<Rightarrow> 'w callType list \<Rightarrow> 'w \<Rightarrow> bool" where
  "chained w [] w' \<longleftrightarrow> w' = w"
| "chained w (c # cs) w' \<longleftrightarrow> call_before c = w \<and> chained (call_after c) cs w'"


definition returned :: "'w callType \<Rightarrow> bool" where
  "returned c = (case call_outcome c of Inr result \<Rightarrow> True | Inl e \<Rightarrow> False)"

subsection \<open>The loops over lists\<close>

text \<open>
  The two loops over a rule list and over a list of fields that do not change while they
  run: what \<open>forEach\<close> and \<open>for ... in\<close> come to when the rules leave the rule-set
  alone.
\<close>

fun run_rules ::
  "jsstring \<Rightarrow> nat \<Rightarrow> 'w ruleType list \<Rightarrow> normalizedValueType \<Rightarrow> validationType \<Rightarrow> 'w
   \<Rightarrow> 'w callType list
   \<Rightarrow> (js_exception + validationType) \<times> normalizedValueType \<times> 'w \<times> 'w callType list" where
  "run_rules field k [] nv validation w journal = (Inr validation, nv, w, journal)"
| "run_rules field k (rule # rest) nv validation w journal =
     (case rule nv w of
        (Inl e, nv1, w1) \<Rightarrow>
          (Inl e, nv1, w1,
           journal @ [\<lparr>call_field = field, call_index = k, call_argument = nv,
                        call_before = w, call_outcome = Inl e, call_after = w1\<rparr>])
      | (Inr result, nv1, w1) \<Rightarrow>
          run_rules field (Suc k) rest nv1
            (if \<not> pass result
             then validation\<lparr>valid := False,
                    errors := set_error field (message result) (errors validation)\<rparr>
             else validation)
            w1
            (journal @ [\<lparr>call_field = field, call_index = k, call_argument = nv,
                          call_before = w, call_outcome = Inr result, call_after = w1\<rparr>]))"

fun run_fields ::
  "hostType \<Rightarrow> ('w \<Rightarrow> dataType) \<Rightarrow> (jsstring \<times> 'w ruleType list) list \<Rightarrow> validationType \<Rightarrow> 'w
   \<Rightarrow> 'w callType list \<Rightarrow> (js_exception + validationType) \<times> 'w \<times> 'w callType list" where
  "run_fields host data [] validation w journal = (Inr validation, w, journal)"
| "run_fields host data ((field, rs) # rest) validation w journal =
     (case normalizeValue host (data_get (data w) field) of
        Inl e \<Rightarrow> (Inl e, w, journal)
      | Inr nv \<Rightarrow>
          (case run_rules field 0 rs nv validation w journal of
             (Inl e, nv1, w1, journal1) \<Rightarrow> (Inl e, w1, journal1)
           | (Inr validation1, nv1, w1, journal1) \<Rightarrow>
               run_fields host data rest validation1 w1 journal1))"

section \<open>The rule registry\<close>

text \<open>
  The source file of the registry is not among the sources; the spec describes it as a
  mapping from a rule name to a factory, where a factory takes the optional configuration
  and the optional message and returns a rule evaluator.
\<close>

type_synonym 'w factoryType = "jsvalue option \<Rightarrow> jsstring option \<Rightarrow> 'w ruleType"

type_synonym 'w registryType = "jsstring \<rightharpoonup> 'w factoryType"

text \<open>
  Modelled from the spec: \<open>add(name, factory)\<close> of the registry, absent from the
  sources. It registers the factory under the name, replacing an earlier one.
\<close>

definition add :: "'w registryType \<Rightarrow> jsstring \<Rightarrow> 'w factoryType \<Rightarrow> 'w registryType" where
  "add registry name factory = registry(name \<mapsto> factory)"

text \<open>
  Modelled from the spec: \<open>get(name)\<close> of the registry, absent from the sources. It
  returns the factory registered under the name and fails with \<open>RuleNotFound\<close> when
  there is none.
\<close>

definition get :: "'w registryType \<Rightarrow> jsstring \<Rightarrow> js_exception + 'w factoryType" where
  "get registry name =
     (case registry name of None \<Rightarrow> Inl RuleNotFound | Some factory \<Rightarrow> Inr factory)"

text \<open>
  Modelled from the spec: \<open>buildRule(name, config, message)\<close>, absent from the sources.
  It is the factory found by \<open>get\<close> applied to the configuration and the message.
\<close>

definition buildRule ::
  "'w registryType \<Rightarrow> jsstring \<Rightarrow> jsvalue option \<Rightarrow> jsstring option
   \<Rightarrow> js_exception + 'w ruleType" where
  "buildRule registry name config msg =
     (case get registry name of
        Inl e \<Rightarrow> Inl e
      | Inr factory \<Rightarrow> Inr (factory config msg))"

text \<open>
  A rule-set written with rule names: each entry of a field's list names a rule, with its
  configuration and message.
\<close>

type_synonym ruleUse = "jsstring \<times> jsvalue option \<times> jsstring option"

text \<open>
  Modelled from the spec: the construction of one field's rule list from its entries,
  absent from the sources. The entries are built with \<open>buildRule\<close>, in order, and the
  first failure ends the construction.
\<close>

fun build_rule_list ::
  "'w registryType \<Rightarrow> ruleUse list \<Rightarrow> js_exception + 'w ruleType list" where
  "build_rule_list registry [] = Inr []"
| "build_rule_list registry ((name, config, msg) # uses) =
     (case buildRule registry name config msg of
        Inl e \<Rightarrow> Inl e
      | Inr rule \<Rightarrow>
          (case build_rule_list registry uses of
             Inl e \<Rightarrow> Inl e
           | Inr rs \<Rightarrow> Inr (rule # rs)))"

text \<open>
  Modelled from the spec: the construction of a rule-set from its fields, absent from the
  sources. The fields are built in order, and the first failure ends the construction.
\<close>

fun build_rules ::
  "'w registryType \<Rightarrow> (jsstring \<times> ruleUse list) list
   \<Rightarrow> js_exception + (jsstring \<times> 'w ruleType list) list" where
  "build_rules registry [] = Inr []"
| "build_rules registry ((field, uses) # rest) =
     (case build_rule_list registry uses of
        Inl e \<Rightarrow> Inl e
      | Inr rs \<Rightarrow>
          (case build_rules registry rest of
             Inl e \<Rightarrow> Inl e
           | Inr rules \<Rightarrow> Inr ((field, rs) # rules)))"

text \<open>
  Modelled from the spec: a validation whose rule-set is written with rule names, the
  caller's side of \<open>validate\<close>, absent from the sources. The rule-set is built first; a
  failure of the construction is the outcome, and otherwise \<open>validate\<close> runs on the
  rule-set built.
\<close>

definition validate_named ::
  "hostType \<Rightarrow> 'w registryType \<Rightarrow> ('w \<Rightarrow> dataType) \<Rightarrow> (jsstring \<times> ruleUse list) list \<Rightarrow> 'w
   \<Rightarrow> (js_exception + validationType) \<times> 'w \<times> 'w callType list" where
  "validate_named host registry data named w =
     (case build_rules registry named of
        Inl e \<Rightarrow> (Inl e, w, [])
      | Inr rules \<Rightarrow> validate host data (Some (fixed_rules rules)) w)"

text \<open>
  Modelled from the spec: the evaluator of a named rule whose lookup is made when the rule
  is invoked, absent from the sources. The spec leaves open whether the registry is
  consulted when the rule-set is written or when the rule is invoked; this is the second
  reading. Invoked, the evaluator looks the name up with \<open>get\<close>, throws what \<open>get\<close>
  fails with, and otherwise runs the evaluator made by the factory.
\<close>

definition rule_by_name ::
  "'w registryType \<Rightarrow> jsstring \<Rightarrow> jsvalue option \<Rightarrow> jsstring option \<Rightarrow> 'w ruleType" where
  "rule_by_name registry name config msg normalizedValue w =
     (case get registry name of
        Inl e \<Rightarrow> (Inl e, normalizedValue, w)
      | Inr factory \<Rightarrow> factory config msg normalizedValue w)"

section \<open>Rule evaluators for the examples\<close>

text \<open>
  Custom rules. The first returns a fixed result, the second passes on every value whose
  tag is not \<open>"nullish"\<close>, the third throws; each counts its call in a world that is a
  number. The others do what a rule should not: one rewrites the tag of the normalized
  value it was handed, one writes a property of \<open>data\<close> (the world being the object behind
  \<open>data\<close>), and one shortens the array of rules it sits in (the world saying whether
  that has happened).
\<close>

definition fixed_rule :: "bool \<Rightarrow> jsstring \<Rightarrow> nat ruleType" where
  "fixed_rule p msg nv w = (Inr \<lparr>pass = p, message = msg\<rparr>, nv, Suc w)"

definition present_rule :: "jsstring \<Rightarrow> nat ruleType" where
  "present_rule msg nv w = (Inr \<lparr>pass = (type nv \<noteq> ''nullish''), message = msg\<rparr>, nv, Suc w)"

definition throwing_rule :: "jsvalue \<Rightarrow> nat ruleType" where
  "throwing_rule x nv w = (Inl (Thrown x), nv, Suc w)"

definition retagging_rule :: "string \<Rightarrow> nat ruleType" where
  "retagging_rule t nv w = (Inr \<lparr>pass = True, message = []\<rparr>, nv\<lparr>type := t\<rparr>, Suc w)"

definition tag_rule :: "string \<Rightarrow> jsstring \<Rightarrow> dataType ruleType" where
  "tag_rule t msg nv w = (Inr \<lparr>pass = (type nv = t), message = msg\<rparr>, nv, w)"

definition writing_rule :: "jsstring \<Rightarrow> jsvalue \<Rightarrow> dataType ruleType" where
  "writing_rule f x nv w = (Inr \<lparr>pass = True, message = []\<rparr>, nv, w\<lparr>own := (own w)(f \<mapsto> x)\<rparr>)"

definition failing_rule :: "jsstring \<Rightarrow> bool ruleType" where
  "failing_rule msg nv w = (Inr \<lparr>pass = False, message = msg\<rparr>, nv, w)"

definition popping_rule :: "bool ruleType" where
  "popping_rule nv w = (Inr \<lparr>pass = True, message = []\<rparr>, nv, True)"

definition shrinking_rules :: "bool rulesType" where
  "shrinking_rules =
     \<lparr>properties = (\<lambda>w. [([0x61], 0)]),
      elements = (\<lambda>w a. if w then [failing_rule [0x41], popping_rule]
                         else [failing_rule [0x41], popping_rule, failing_rule [0x43]])\<rparr>"

section \<open>Properties of the builtins\<close>

lemma js_typeof_string: "js_typeof v = ''string'' \<longleftrightarrow> (\<exists>s. v = JString s)"
  by (cases v) auto

lemma js_typeof_number: "js_typeof v = ''number'' \<longleftrightarrow> (\<exists>n. v = JNumber n)"
  by (cases v) auto

lemma rev_dropWhile_split:
  "xs = rev (dropWhile P (rev xs)) @ rev (takeWhile P (rev xs))"
  by (metis rev_append rev_rev_ident takeWhile_dropWhile_id)

lemma trimStart_split: "s = takeWhile is_white_space s @ trimStart s"
  by (simp add: trimStart_def)

lemma trimEnd_split: "t = trimEnd t @ rev (takeWhile is_white_space (rev t))"
  unfolding trimEnd_def by (rule rev_dropWhile_split)

lemma trim_decomp:
  "s = takeWhile is_white_space s @ trim s
         @ rev (takeWhile is_white_space (rev (trimStart s)))"
  using trimStart_split[of s] trimEnd_split[of "trimStart s"] by (simp add: trim_def)

lemma dropWhile_unchanged: "xs = [] \<or> \<not> P (hd xs) \<Longrightarrow> dropWhile P xs = xs"
  by (cases xs) auto

lemma list_all_takeWhile: "list_all P (takeWhile P xs)"
  by (induction xs) auto

lemma trim_last: "trim s \<noteq> [] \<Longrightarrow> \<not> is_white_space (last (trim s))"
  unfolding trim_def trimEnd_def trimStart_def
  by (metis hd_dropWhile last_rev rev_is_Nil_conv)

lemma trim_hd: "trim s \<noteq> [] \<Longrightarrow> \<not> is_white_space (hd (trim s))"
proof -
  assume ne: "trim s \<noteq> []"
  have t: "trimStart s = trim s @ rev (takeWhile is_white_space (rev (trimStart s)))"
    using trimEnd_split[of "trimStart s"] by (simp add: trim_def)
  then have "hd (trimStart s) = hd (trim s)" using ne by (metis hd_append2)
  moreover have "trimStart s \<noteq> []" using t ne by (metis append_is_Nil_conv)
  ultimately show ?thesis unfolding trimStart_def by (metis hd_dropWhile)
qed

lemma trim_idem: "trim (trim s) = trim s"
proof -
  have a: "trimStart (trim s) = trim s"
    unfolding trimStart_def using trim_hd[of s] by (intro dropWhile_unchanged) blast
  have "trimEnd (trim s) = trim s"
    by (simp add: trim_def trimEnd_def dropWhile_idem)
  with a show ?thesis by (simp add: trim_def[of "trim s"])
qed

lemma trim_unique:
  assumes "s = l @ t @ r" and "list_all is_white_space l" and "list_all is_white_space r"
    and "t = [] \<or> (\<not> is_white_space (hd t) \<and> \<not> is_white_space (last t))"
  shows "trim s = t"
proof (cases "t = []")
  case True
  then have "list_all is_white_space s" using assms(1-3) by simp
  then have "trimStart s = []"
    unfolding trimStart_def by (metis dropWhile_eq_Nil_conv list_all_iff)
  then have "trim s = trimEnd []" by (simp only: trim_def)
  then show ?thesis using True by (simp add: trimEnd_def)
next
  case False
  then have h: "\<not> is_white_space (hd t)" and e: "\<not> is_white_space (last t)"
    using assms(4) by auto
  have "dropWhile is_white_space (l @ t @ r) = dropWhile is_white_space (t @ r)"
    using assms(2) by (simp add: list_all_iff dropWhile_append)
  also have "\<dots> = t @ r"
    using False h by (cases t) auto
  finally have a: "trimStart s = t @ r" by (simp add: trimStart_def assms(1))
  have "dropWhile is_white_space (rev r @ rev t) = dropWhile is_white_space (rev t)"
    using assms(3) by (simp add: list_all_iff dropWhile_append)
  also have "\<dots> = rev t"
    using False e by (cases "rev t") (auto simp: last_rev[symmetric] simp del: last_rev)
  finally show ?thesis by (simp add: trim_def trimEnd_def a)
qed

lemma parse_toString_idem:
  "parse_number_text (Number_toString (parse_number_text (Number_toString n)))
     = parse_number_text (Number_toString n)"
  by (cases n) simp_all

lemma parse_toString_same: "n \<noteq> NegZero \<Longrightarrow> parse_number_text (Number_toString n) = n"
  by (cases n) simp_all

section \<open>Properties of normalizeValue\<close>

lemma mode_node: "mode host = ''node'' \<longleftrightarrow> module_exports host"
  by (simp add: mode_def)

lemma mode_browser: "mode host = ''browser'' \<longleftrightarrow> \<not> module_exports host"
  by (simp add: mode_def)

lemma normalizeValue_JString:
  "normalizeValue host (JString s) = Inr \<lparr>type = ''string'', value' = JString (trim s)\<rparr>"
  by (simp add: normalizeValue_def)

lemma normalizeValue_JNumber:
  "normalizeValue host (JNumber n)
     = Inr \<lparr>type = ''number'', value' = JNumber (parse_number_text (Number_toString n))\<rparr>"
  by (simp add: normalizeValue_def)

lemma parse_toString_cases:
  "parse_number_text (Number_toString n) = (if n = NegZero then PosZero else n)"
  by (cases n) simp_all

lemma normalizeValue_default:
  assumes "mode host = ''node'' \<or> File_global host" and "\<not> is_Proxy v"
    and "\<forall>s. v \<noteq> JString s" and "\<forall>n. v \<noteq> JNumber n"
  shows "normalizeValue host v =
     Inr (if v = JUndefined \<or> v = JNull then \<lparr>type = ''nullish'', value' = JNull\<rparr>
          else \<lparr>type = (case v of JArray _ \<Rightarrow> ''array''
                          | JFile _ \<Rightarrow> (if mode host = ''browser'' then ''file'' else ''object'')
                          | _ \<Rightarrow> js_typeof v),
                 value' = v\<rparr>)"
  using assms by (cases v) (auto simp: normalizeValue_def Let_def mode_node mode_browser)


lemma normalizeValue_no_File:
  "mode host = ''browser'' \<Longrightarrow> \<not> File_global host
   \<Longrightarrow> \<forall>s. v \<noteq> JString s \<Longrightarrow> \<forall>n. v \<noteq> JNumber n
   \<Longrightarrow> \<exists>e. normalizeValue host v = Inl e"
  by (cases v) (auto simp: normalizeValue_def Let_def mode_node mode_browser split: sum.splits)

lemma normalizeValue_JRevokedProxy: "normalizeValue host JRevokedProxy = Inl TypeError"
  by (simp add: normalizeValue_def)


text \<open>
  C3. For every string \<open>s\<close>, \<open>normalizeValue\<close> returns the tag \<open>"string"\<close> and the
  value \<open>s.trim()\<close>, and that value is \<open>s\<close> with its leading and trailing white space
  removed: \<open>s\<close> is a run of white space, then the value, then a run of white space, and
  the value neither starts nor ends with white space.
\<close>

theorem normalizeValue_string_trimmed:
  "\<exists>l r. normalizeValue host (JString s) = Inr \<lparr>type = ''string'', value' = JString (trim s)\<rparr>
     \<and> s = l @ trim s @ r \<and> list_all is_white_space l \<and> list_all is_white_space r
     \<and> (trim s = [] \<or> (\<not> is_white_space (hd (trim s)) \<and> \<not> is_white_space (last (trim s))))"
proof (intro exI conjI)
  show "normalizeValue host (JString s) = Inr \<lparr>type = ''string'', value' = JString (trim s)\<rparr>"
    by (rule normalizeValue_JString)
  show "s = takeWhile is_white_space s @ trim s
          @ rev (takeWhile is_white_space (rev (trimStart s)))"
    by (rule trim_decomp)
  show "list_all is_white_space (takeWhile is_white_space s)"
    by (rule list_all_takeWhile)
  show "list_all is_white_space (rev (takeWhile is_white_space (rev (trimStart s))))"
    using list_all_takeWhile[of is_white_space "rev (trimStart s)"] by (simp add: list_all_iff)
  show "trim s = [] \<or> (\<not> is_white_space (hd (trim s)) \<and> \<not> is_white_space (last (trim s)))"
    using trim_hd trim_last by blast
qed

theorem normalizeValue_string_trimmed_witness:
  "\<exists>l r. normalizeValue \<lparr>module_exports = False, File_global = False\<rparr>
              (JString [0x20, 0x9, 0x61, 0x20, 0x62, 0xA0, 0xA])
            = Inr \<lparr>type = ''string'', value' = JString [0x61, 0x20, 0x62]\<rparr>
     \<and> [0x20, 0x9, 0x61, 0x20, 0x62, 0xA0, 0xA] = l @ [0x61, 0x20, 0x62] @ r
     \<and> list_all is_white_space l \<and> list_all is_white_space r
     \<and> \<not> is_white_space (0x61 :: 16 word) \<and> \<not> is_white_space (0x62 :: 16 word)"
proof -
  have t: "trim [0x20, 0x9, 0x61, 0x20, 0x62, 0xA0, 0xA] = [0x61, 0x20, 0x62]"
    by (simp add: trim_def trimStart_def trimEnd_def is_white_space_def)
  show ?thesis
    using normalizeValue_string_trimmed[of "\<lparr>module_exports = False, File_global = False\<rparr>"
        "[0x20, 0x9, 0x61, 0x20, 0x62, 0xA0, 0xA]"]
    unfolding t by simp
qed




text \<open>
  C5, as stated: malformed numeric input yields a not-a-number value. A malformed numeric
  string does not: it is a string, and the string branch trims it and never parses it.
\<close>

theorem normalizeValue_number_counterexample:
  "normalizeValue \<lparr>module_exports = True, File_global = False\<rparr>
       (JString [0x20, 0x31, 0x32, 0x61, 0x62, 0x63, 0x20])
     = Inr \<lparr>type = ''string'', value' = JString [0x31, 0x32, 0x61, 0x62, 0x63]\<rparr>
   \<and> normalizeValue \<lparr>module_exports = True, File_global = False\<rparr>
       (JString [0x20, 0x31, 0x32, 0x61, 0x62, 0x63, 0x20])
     \<noteq> Inr \<lparr>type = ''number'', value' = JNumber NaN\<rparr>"
  by (simp add: normalizeValue_def trim_def trimStart_def trimEnd_def is_white_space_def)

text \<open>
  C5, amended. For every Number \<open>n\<close>, in every host, \<open>normalizeValue\<close> returns the tag
  \<open>"number"\<close> and the value \<open>parseFloat\<close> reads from the string form of \<open>n\<close>, which is
  \<open>n\<close> itself except that \<open>-0\<close> gives \<open>+0\<close>; no exception is thrown, and NaN comes
  back as NaN. Numeric text in a string, malformed or not, is not parsed: a string keeps
  the tag \<open>"string"\<close> and is trimmed.
\<close>

theorem normalizeValue_number:
  "normalizeValue host (JNumber n)
     = Inr \<lparr>type = ''number'', value' = JNumber (parse_number_text (Number_toString n))\<rparr>
   \<and> parse_number_text (Number_toString n) = (if n = NegZero then PosZero else n)
   \<and> normalizeValue host (JNumber NaN) = Inr \<lparr>type = ''number'', value' = JNumber NaN\<rparr>
   \<and> normalizeValue host (JString s) = Inr \<lparr>type = ''string'', value' = JString (trim s)\<rparr>"
  by (simp add: normalizeValue_JNumber normalizeValue_JString parse_toString_cases)

theorem normalizeValue_number_witness:
  "normalizeValue \<lparr>module_exports = True, File_global = False\<rparr> (JNumber (Finite 5 0))
     = Inr \<lparr>type = ''number'', value' = JNumber (Finite 5 0)\<rparr>
   \<and> normalizeValue \<lparr>module_exports = True, File_global = False\<rparr> (JNumber NegZero)
     = Inr \<lparr>type = ''number'', value' = JNumber PosZero\<rparr>"
  using normalizeValue_number[of "\<lparr>module_exports = True, File_global = False\<rparr>" "Finite 5 0" "[]"]
    normalizeValue_number[of "\<lparr>module_exports = True, File_global = False\<rparr>" NegZero "[]"]
  by simp




text \<open>
  C7. Normalizing the value of an already normalized string or Number gives the same tag
  and the same value again.
\<close>

theorem normalizeValue_idempotent:
  "v0 = JString s \<or> v0 = JNumber n \<Longrightarrow> normalizeValue host v0 = Inr r
   \<Longrightarrow> normalizeValue host (value' r) = Inr r"
  by (auto simp: normalizeValue_JString normalizeValue_JNumber trim_idem parse_toString_idem)

theorem normalizeValue_idempotent_witness:
  "normalizeValue \<lparr>module_exports = True, File_global = False\<rparr> (JNumber NegZero)
     = Inr \<lparr>type = ''number'', value' = JNumber PosZero\<rparr>
   \<and> normalizeValue \<lparr>module_exports = True, File_global = False\<rparr>
        (value' \<lparr>type = ''number'', value' = JNumber PosZero\<rparr>)
       = Inr \<lparr>type = ''number'', value' = JNumber PosZero\<rparr>"
  using normalizeValue_idempotent[of "JNumber NegZero" "[]" NegZero
      "\<lparr>module_exports = True, File_global = False\<rparr>"
      "\<lparr>type = ''number'', value' = JNumber PosZero\<rparr>"]
  by (simp add: normalizeValue_JNumber)

section \<open>Properties of the loops\<close>

text \<open>
  What holds of \<open>forEach\<close> and of \<open>for ... in\<close> whatever the rules do: the calls follow
  one another, every call is for a field that was visited, a call that threw is the last
  one, and the validation record can be read off the journal.
\<close>

lemma failing_messages_append:
  "failing_messages f (xs @ ys) = failing_messages f xs @ failing_messages f ys"
  by (induction xs) (auto split: sum.splits)

lemma failing_messages_other:
  "list_all (\<lambda>c. call_field c = f) cs \<Longrightarrow> g \<noteq> f \<Longrightarrow> failing_messages g cs = []"
  by (induction cs) (auto split: sum.splits)

lemma chained_append:
  "chained w (xs @ ys) w' \<longleftrightarrow> (\<exists>w1. chained w xs w1 \<and> chained w1 ys w')"
  by (induction xs arbitrary: w) auto

lemma chained_snoc: "chained w (xs @ [c]) w' \<Longrightarrow> call_after c = w'"
  by (auto simp: chained_append)

lemma forEach_at_acc:
  "forEach_at rules f a ks nv v w jr =
     (case forEach_at rules f a ks nv v w [] of (out, w', new) \<Rightarrow> (out, w', jr @ new))"
proof (induction ks arbitrary: nv v w jr)
  case Nil
  then show ?case by simp
next
  case (Cons k ks)
  show ?case
  proof (cases "k < length (elements rules w a)")
    case False
    then show ?thesis using Cons.IH[of nv v w jr] by simp
  next
    case True
    obtain out nv1 w1 where r: "(elements rules w a ! k) nv w = (out, nv1, w1)"
      by (cases "(elements rules w a ! k) nv w") auto
    show ?thesis
    proof (cases out)
      case (Inl e)
      then show ?thesis using True r by simp
    next
      case (Inr result)
      let ?c = "\<lparr>call_field = f, call_index = k, call_argument = nv,
                 call_before = w, call_outcome = Inr result, call_after = w1\<rparr>"
      let ?v = "(if \<not> pass result
                then v\<lparr>valid := False, errors := set_error f (message result) (errors v)\<rparr>
                else v)"
      have 1: "forEach_at rules f a (k # ks) nv v w jr = forEach_at rules f a ks nv1 ?v w1 (jr @ [?c])"
        using True r Inr by simp
      have 2: "forEach_at rules f a (k # ks) nv v w [] = forEach_at rules f a ks nv1 ?v w1 [?c]"
        using True r Inr by simp
      show ?thesis
        unfolding 1 2
        using Cons.IH[of nv1 ?v w1 "jr @ [?c]"] Cons.IH[of nv1 ?v w1 "[?c]"]
        by (simp split: prod.splits)
    qed
  qed
qed

lemma forEach_at_skip:
  "\<not> k < length (elements rules w a) \<Longrightarrow>
   forEach_at rules f a (k # ks) nv v w jr = forEach_at rules f a ks nv v w jr"
  by simp

lemma forEach_at_throw:
  "k < length (elements rules w a) \<Longrightarrow> (elements rules w a ! k) nv w = (Inl e, nv1, w1) \<Longrightarrow>
   forEach_at rules f a (k # ks) nv v w jr =
     (Inl e, w1, jr @ [\<lparr>call_field = f, call_index = k, call_argument = nv,
                          call_before = w, call_outcome = Inl e, call_after = w1\<rparr>])"
  by simp

lemma forEach_at_return:
  "k < length (elements rules w a) \<Longrightarrow> (elements rules w a ! k) nv w = (Inr result, nv1, w1) \<Longrightarrow>
   forEach_at rules f a (k # ks) nv v w [] =
     (case forEach_at rules f a ks nv1
             (if \<not> pass result
              then v\<lparr>valid := False, errors := set_error f (message result) (errors v)\<rparr>
              else v) w1 [] of
        (out, w', new) \<Rightarrow>
          (out, w', \<lparr>call_field = f, call_index = k, call_argument = nv,
                      call_before = w, call_outcome = Inr result, call_after = w1\<rparr> # new))"
  using forEach_at_acc[of rules f a ks nv1 _ w1 "[_]"] by simp

declare forEach_at.simps(2) [simp del]

lemma forEach_at_cases:
  obtains (skip) "\<not> k < length (elements rules w a)"
  | (throw) e nv1 w1 where "k < length (elements rules w a)"
      "(elements rules w a ! k) nv w = (Inl e, nv1, w1)"
  | (return) result nv1 w1 where "k < length (elements rules w a)"
      "(elements rules w a ! k) nv w = (Inr result, nv1, w1)"
proof (cases "k < length (elements rules w a)")
  case False then show ?thesis by (rule skip)
next
  case True
  obtain out nv1 w1 where r: "(elements rules w a ! k) nv w = (out, nv1, w1)"
    by (cases "(elements rules w a ! k) nv w") auto
  show ?thesis using True r throw return by (cases out) auto
qed

lemma forEach_at_chained:
  "forEach_at rules f a ks nv v w [] = (out, w', jr) \<Longrightarrow> chained w jr w'"
proof (induction ks arbitrary: nv v w out w' jr)
  case Nil then show ?case by simp
next
  case (Cons k ks)
  show ?case
  proof (cases rule: forEach_at_cases[where k=k and rules=rules and w=w and a=a and nv=nv])
    case skip
    then show ?thesis using Cons.prems Cons.IH by (simp add: forEach_at_skip)
  next
    case (throw e nv1 w1)
    then show ?thesis using Cons.prems by (auto simp: forEach_at_throw)
  next
    case (return result nv1 w1)
    then show ?thesis using Cons.prems Cons.IH
      by (auto simp: forEach_at_return split: prod.splits)
  qed
qed

lemma forEach_at_fields:
  "forEach_at rules f a ks nv v w [] = (out, w', jr) \<Longrightarrow> list_all (\<lambda>c. call_field c = f) jr"
proof (induction ks arbitrary: nv v w out w' jr)
  case Nil then show ?case by simp
next
  case (Cons k ks)
  show ?case
  proof (cases rule: forEach_at_cases[where k=k and rules=rules and w=w and a=a and nv=nv])
    case skip
    then show ?thesis using Cons.prems Cons.IH by (simp add: forEach_at_skip)
  next
    case (throw e nv1 w1)
    then show ?thesis using Cons.prems by (auto simp: forEach_at_throw)
  next
    case (return result nv1 w1)
    then show ?thesis using Cons.prems Cons.IH
      by (auto simp: forEach_at_return split: prod.splits)
  qed
qed

lemma forEach_at_Inl:
  "forEach_at rules f a ks nv v w [] = (Inl e, w', jr) \<Longrightarrow>
   \<exists>pre c. jr = pre @ [c] \<and> list_all returned pre \<and> call_outcome c = Inl e"
proof (induction ks arbitrary: nv v w w' jr)
  case Nil then show ?case by simp
next
  case (Cons k ks)
  show ?case
  proof (cases rule: forEach_at_cases[where k=k and rules=rules and w=w and a=a and nv=nv])
    case skip
    then show ?thesis using Cons.prems Cons.IH by (simp add: forEach_at_skip)
  next
    case (throw e' nv1 w1)
    then have "jr = [] @ [\<lparr>call_field = f, call_index = k, call_argument = nv,
                          call_before = w, call_outcome = Inl e, call_after = w1\<rparr>]"
      using Cons.prems by (auto simp: forEach_at_throw)
    then show ?thesis by (intro exI[of _ "[]"] exI conjI) auto
  next
    case (return result nv1 w1)
    let ?c = "\<lparr>call_field = f, call_index = k, call_argument = nv,
                      call_before = w, call_outcome = Inr result, call_after = w1\<rparr>"
    obtain new where new: "forEach_at rules f a ks nv1
             (if \<not> pass result
              then v\<lparr>valid := False, errors := set_error f (message result) (errors v)\<rparr>
              else v) w1 [] = (Inl e, w', new)" and jr: "jr = ?c # new"
      using return Cons.prems by (auto simp: forEach_at_return split: prod.splits)
    obtain pre c where "new = pre @ [c]" "list_all returned pre" "call_outcome c = Inl e"
      using Cons.IH[OF new] by blast
    then have "jr = (?c # pre) @ [c] \<and> list_all returned (?c # pre) \<and> call_outcome c = Inl e"
      using jr by (simp add: returned_def)
    then show ?thesis by blast
  qed
qed

lemma forEach_at_Inr:
  "forEach_at rules f a ks nv v w [] = (Inr v', w', jr) \<Longrightarrow>
   list_all returned jr
   \<and> (valid v' \<longleftrightarrow> valid v \<and> failing_messages f jr = [])
   \<and> errors v' = (if f \<noteq> js_str ''__proto__'' \<and> failing_messages f jr \<noteq> []
                  then (errors v)(f \<mapsto> last (failing_messages f jr)) else errors v)"
proof (induction ks arbitrary: nv v w w' jr)
  case Nil then show ?case by simp
next
  case (Cons k ks)
  show ?case
  proof (cases rule: forEach_at_cases[where k=k and rules=rules and w=w and a=a and nv=nv])
    case skip
    then show ?thesis using Cons.prems Cons.IH by (simp add: forEach_at_skip)
  next
    case (throw e' nv1 w1)
    then show ?thesis using Cons.prems by (simp add: forEach_at_throw)
  next
    case (return result nv1 w1)
    let ?c = "\<lparr>call_field = f, call_index = k, call_argument = nv,
                      call_before = w, call_outcome = Inr result, call_after = w1\<rparr>"
    let ?v = "(if \<not> pass result
              then v\<lparr>valid := False, errors := set_error f (message result) (errors v)\<rparr>
              else v)"
    obtain new where new: "forEach_at rules f a ks nv1 ?v w1 [] = (Inr v', w', new)"
      and jr: "jr = ?c # new"
      using return Cons.prems by (auto simp: forEach_at_return split: prod.splits)
    note ih = Cons.IH[OF new]
    show ?thesis
      using ih unfolding jr
      by (auto simp: returned_def set_error_def)
  qed
qed

lemma forEach_acc:
  "forEach rules f a nv v w jr =
     (case forEach rules f a nv v w [] of (out, w', new) \<Rightarrow> (out, w', jr @ new))"
  unfolding forEach_def by (rule forEach_at_acc)

lemma for_in_rules_acc:
  "for_in_rules host data rules keys v w jr =
     (case for_in_rules host data rules keys v w [] of (out, w', new) \<Rightarrow> (out, w', jr @ new))"
proof (induction keys arbitrary: v w jr)
  case Nil
  then show ?case by simp
next
  case (Cons field rest)
  show ?case
  proof (cases "map_of (properties rules w) field")
    case None
    then show ?thesis using Cons.IH[of v w jr] by simp
  next
    case (Some a)
    show ?thesis
    proof (cases "normalizeValue host (data_get (data w) field)")
      case (Inl e)
      then show ?thesis using Some by simp
    next
      case (Inr nv)
      obtain out w1 j1 where fe: "forEach rules field a nv v w [] = (out, w1, j1)"
        by (cases "forEach rules field a nv v w []") auto
      then have fe': "forEach rules field a nv v w jr = (out, w1, jr @ j1)"
        using forEach_acc[of rules field a nv v w jr] by simp
      show ?thesis
      proof (cases out)
        case (Inl e)
        then show ?thesis using Some Inr fe fe' by simp
      next
        case (Inr v1)
        then show ?thesis
          using Some \<open>normalizeValue host (data_get (data w) field) = Inr nv\<close> fe fe'
            Cons.IH[of v1 w1 "jr @ j1"] Cons.IH[of v1 w1 j1]
          by (simp split: prod.splits)
      qed
    qed
  qed
qed

lemma for_in_rules_deleted:
  "map_of (properties rules w) field = None \<Longrightarrow>
   for_in_rules host data rules (field # rest) v w jr = for_in_rules host data rules rest v w jr"
  by simp

lemma for_in_rules_normalize_throws:
  "map_of (properties rules w) field = Some a \<Longrightarrow>
   normalizeValue host (data_get (data w) field) = Inl e \<Longrightarrow>
   for_in_rules host data rules (field # rest) v w jr = (Inl e, w, jr)"
  by simp

lemma for_in_rules_rule_throws:
  "map_of (properties rules w) field = Some a \<Longrightarrow>
   normalizeValue host (data_get (data w) field) = Inr nv \<Longrightarrow>
   forEach rules field a nv v w [] = (Inl e, w1, j1) \<Longrightarrow>
   for_in_rules host data rules (field # rest) v w [] = (Inl e, w1, j1)"
  by simp

lemma for_in_rules_next:
  "map_of (properties rules w) field = Some a \<Longrightarrow>
   normalizeValue host (data_get (data w) field) = Inr nv \<Longrightarrow>
   forEach rules field a nv v w [] = (Inr v1, w1, j1) \<Longrightarrow>
   for_in_rules host data rules (field # rest) v w [] =
     (case for_in_rules host data rules rest v1 w1 [] of (out, w', new) \<Rightarrow> (out, w', j1 @ new))"
  using for_in_rules_acc[of host data rules rest v1 w1 j1] by simp

declare for_in_rules.simps(2) [simp del]

lemma for_in_rules_cases:
  obtains (deleted) "map_of (properties rules w) field = None"
  | (normalize_throws) a e where "map_of (properties rules w) field = Some a"
      "normalizeValue host (data_get (data w) field) = Inl e"
  | (rule_throws) a nv e w1 j1 where "map_of (properties rules w) field = Some a"
      "normalizeValue host (data_get (data w) field) = Inr nv"
      "forEach rules field a nv v w [] = (Inl e, w1, j1)"
  | (next_field) a nv v1 w1 j1 where "map_of (properties rules w) field = Some a"
      "normalizeValue host (data_get (data w) field) = Inr nv"
      "forEach rules field a nv v w [] = (Inr v1, w1, j1)"
proof (cases "map_of (properties rules w) field")
  case None then show ?thesis by (rule deleted)
next
  case (Some a)
  show ?thesis
  proof (cases "normalizeValue host (data_get (data w) field)")
    case (Inl e) then show ?thesis using Some normalize_throws by blast
  next
    case (Inr nv)
    obtain out w1 j1 where fe: "forEach rules field a nv v w [] = (out, w1, j1)"
      by (cases "forEach rules field a nv v w []") auto
    show ?thesis using Some Inr fe rule_throws next_field by (cases out) auto
  qed
qed

lemma forEach_chained: "forEach rules f a nv v w [] = (out, w', jr) \<Longrightarrow> chained w jr w'"
  unfolding forEach_def by (rule forEach_at_chained)

lemma forEach_fields:
  "forEach rules f a nv v w [] = (out, w', jr) \<Longrightarrow> list_all (\<lambda>c. call_field c = f) jr"
  unfolding forEach_def by (rule forEach_at_fields)

lemma forEach_Inl:
  "forEach rules f a nv v w [] = (Inl e, w', jr) \<Longrightarrow>
   \<exists>pre c. jr = pre @ [c] \<and> list_all returned pre \<and> call_outcome c = Inl e"
  unfolding forEach_def by (rule forEach_at_Inl)

lemma forEach_Inr:
  "forEach rules f a nv v w [] = (Inr v', w', jr) \<Longrightarrow>
   list_all returned jr
   \<and> (valid v' \<longleftrightarrow> valid v \<and> failing_messages f jr = [])
   \<and> errors v' = (if f \<noteq> js_str ''__proto__'' \<and> failing_messages f jr \<noteq> []
                  then (errors v)(f \<mapsto> last (failing_messages f jr)) else errors v)"
  unfolding forEach_def by (rule forEach_at_Inr)

lemma for_in_rules_chained:
  "for_in_rules host data rules keys v w [] = (out, w', jr) \<Longrightarrow> chained w jr w'"
proof (induction keys arbitrary: v w out w' jr)
  case Nil then show ?case by simp
next
  case (Cons field rest)
  show ?case
  proof (cases rule: for_in_rules_cases[where rules=rules and w=w and field=field
        and host=host and data=data and v=v])
    case deleted
    then show ?thesis using Cons.prems Cons.IH by (simp add: for_in_rules_deleted)
  next
    case (normalize_throws a e)
    then show ?thesis using Cons.prems by (auto simp: for_in_rules_normalize_throws)
  next
    case (rule_throws a nv e w1 j1)
    then show ?thesis using Cons.prems forEach_chained[OF rule_throws(3)]
      by (auto simp: for_in_rules_rule_throws)
  next
    case (next_field a nv v1 w1 j1)
    obtain new where new: "for_in_rules host data rules rest v1 w1 [] = (out, w', new)"
      and jr: "jr = j1 @ new"
      using next_field Cons.prems by (auto simp: for_in_rules_next split: prod.splits)
    show ?thesis
      unfolding jr chained_append
      using forEach_chained[OF next_field(3)] Cons.IH[OF new] by blast
  qed
qed


lemma for_in_rules_Inl:
  "for_in_rules host data rules keys v w [] = (Inl e, w', jr) \<Longrightarrow>
   list_all returned jr
   \<or> (\<exists>pre c. jr = pre @ [c] \<and> list_all returned pre \<and> call_outcome c = Inl e)"
proof (induction keys arbitrary: v w w' jr)
  case Nil then show ?case by simp
next
  case (Cons field rest)
  show ?case
  proof (cases rule: for_in_rules_cases[where rules=rules and w=w and field=field
        and host=host and data=data and v=v])
    case deleted
    then show ?thesis using Cons.prems Cons.IH by (simp add: for_in_rules_deleted)
  next
    case (normalize_throws a e')
    then show ?thesis using Cons.prems by (auto simp: for_in_rules_normalize_throws)
  next
    case (rule_throws a nv e' w1 j1)
    then show ?thesis using Cons.prems forEach_Inl[OF rule_throws(3)]
      by (auto simp: for_in_rules_rule_throws)
  next
    case (next_field a nv v1 w1 j1)
    obtain new where new: "for_in_rules host data rules rest v1 w1 [] = (Inl e, w', new)"
      and jr: "jr = j1 @ new"
      using next_field Cons.prems by (auto simp: for_in_rules_next split: prod.splits)
    have j1: "list_all returned j1" using forEach_Inr[OF next_field(3)] by simp
    from Cons.IH[OF new] show ?thesis
    proof
      assume "list_all returned new"
      then show ?thesis using j1 jr by simp
    next
      assume "\<exists>pre c. new = pre @ [c] \<and> list_all returned pre \<and> call_outcome c = Inl e"
      then obtain pre c where "new = pre @ [c]" "list_all returned pre" "call_outcome c = Inl e"
        by blast
      then have "jr = (j1 @ pre) @ [c] \<and> list_all returned (j1 @ pre) \<and> call_outcome c = Inl e"
        using j1 jr by simp
      then show ?thesis by blast
    qed
  qed
qed

lemma for_in_rules_Inr:
  "for_in_rules host data rules keys v w [] = (Inr v', w', jr) \<Longrightarrow>
   list_all returned jr
   \<and> (valid v' \<longleftrightarrow> valid v \<and> (\<forall>g. failing_messages g jr = []))
   \<and> (\<forall>g. errors v' g = (if g \<noteq> js_str ''__proto__'' \<and> failing_messages g jr \<noteq> []
                         then Some (last (failing_messages g jr)) else errors v g))"
proof (induction keys arbitrary: v w w' jr)
  case Nil then show ?case by simp
next
  case (Cons field rest)
  show ?case
  proof (cases rule: for_in_rules_cases[where rules=rules and w=w and field=field
        and host=host and data=data and v=v])
    case deleted
    then show ?thesis using Cons.prems Cons.IH by (simp add: for_in_rules_deleted)
  next
    case (normalize_throws a e')
    then show ?thesis using Cons.prems by (auto simp: for_in_rules_normalize_throws)
  next
    case (rule_throws a nv e' w1 j1)
    then show ?thesis using Cons.prems by (auto simp: for_in_rules_rule_throws)
  next
    case (next_field a nv v1 w1 j1)
    obtain new where new: "for_in_rules host data rules rest v1 w1 [] = (Inr v', w', new)"
      and jr: "jr = j1 @ new"
      using next_field Cons.prems by (auto simp: for_in_rules_next split: prod.splits)
    note fe = forEach_Inr[OF next_field(3)]
    note fl = forEach_fields[OF next_field(3)]
    note ih = Cons.IH[OF new]
    have other: "failing_messages g j1 = []" if "g \<noteq> field" for g
      using fl that by (rule failing_messages_other)
    have 1: "list_all returned jr" using fe ih jr by simp
    have 2: "valid v' \<longleftrightarrow> valid v \<and> (\<forall>g. failing_messages g jr = [])"
    proof -
      have "(\<forall>g. failing_messages g j1 = []) \<longleftrightarrow> failing_messages field j1 = []"
        using other by metis
      then show ?thesis using fe ih unfolding jr failing_messages_append by auto
    qed
    have 3: "errors v' g = (if g \<noteq> js_str ''__proto__'' \<and> failing_messages g jr \<noteq> []
                         then Some (last (failing_messages g jr)) else errors v g)" for g
    proof (cases "g = field")
      case True
      then show ?thesis using fe ih unfolding jr failing_messages_append by auto
    next
      case False
      then show ?thesis using fe ih other[OF False] unfolding jr failing_messages_append by auto
    qed
    show ?thesis using 1 2 3 by blast
  qed
qed

section \<open>Rules that leave the rule-set alone\<close>

text \<open>
  When the rules change neither the rule-set nor the array they sit in, \<open>forEach\<close> is the
  loop over the rule list and \<open>for ... in\<close> the loop over the list of fields.
\<close>

lemma run_rules_acc:
  "run_rules f k rs nv v w jr =
     (case run_rules f k rs nv v w [] of (out, nv', w', new) \<Rightarrow> (out, nv', w', jr @ new))"
proof (induction rs arbitrary: k nv v w jr)
  case Nil
  then show ?case by simp
next
  case (Cons r rs)
  obtain out nv1 w1 where r: "r nv w = (out, nv1, w1)" by (cases "r nv w") auto
  show ?case
  proof (cases out)
    case (Inl e)
    then show ?thesis using r by simp
  next
    case (Inr result)
    let ?c = "\<lparr>call_field = f, call_index = k, call_argument = nv,
               call_before = w, call_outcome = Inr result, call_after = w1\<rparr>"
    let ?v = "(if \<not> pass result
              then v\<lparr>valid := False, errors := set_error f (message result) (errors v)\<rparr>
              else v)"
    show ?thesis
      using r Inr Cons.IH[of "Suc k" nv1 ?v w1 "jr @ [?c]"] Cons.IH[of "Suc k" nv1 ?v w1 "[?c]"]
      by (simp split: prod.splits)
  qed
qed

lemma run_rules_throw:
  "r nv w = (Inl e, nv1, w1) \<Longrightarrow>
   run_rules f k (r # rs) nv v w jr =
     (Inl e, nv1, w1, jr @ [\<lparr>call_field = f, call_index = k, call_argument = nv,
                               call_before = w, call_outcome = Inl e, call_after = w1\<rparr>])"
  by simp

lemma run_rules_return:
  "r nv w = (Inr result, nv1, w1) \<Longrightarrow>
   run_rules f k (r # rs) nv v w [] =
     (case run_rules f (Suc k) rs nv1
             (if \<not> pass result
              then v\<lparr>valid := False, errors := set_error f (message result) (errors v)\<rparr>
              else v) w1 [] of
        (out, nv', w', new) \<Rightarrow>
          (out, nv', w', \<lparr>call_field = f, call_index = k, call_argument = nv,
                           call_before = w, call_outcome = Inr result, call_after = w1\<rparr> # new))"
  using run_rules_acc[of f "Suc k" rs nv1 _ w1 "[_]"] by simp

lemma run_rules_return_acc:
  "r nv w = (Inr result, nv1, w1) \<Longrightarrow>
   run_rules f k (r # rs) nv v w jr =
     run_rules f (Suc k) rs nv1
             (if \<not> pass result
              then v\<lparr>valid := False, errors := set_error f (message result) (errors v)\<rparr>
              else v) w1
          (jr @ [\<lparr>call_field = f, call_index = k, call_argument = nv,
                           call_before = w, call_outcome = Inr result, call_after = w1\<rparr>])"
  by simp

declare run_rules.simps(2) [simp del]

lemma rule_cases:
  obtains (throw) e nv1 w1 where "(r :: 'w ruleType) nv w = (Inl e, nv1, w1)"
  | (return) result nv1 w1 where "r nv w = (Inr result, nv1, w1)"
proof -
  obtain out nv1 w1 where r: "r nv w = (out, nv1, w1)" by (cases "r nv w") auto
  show ?thesis using r throw return by (cases out) auto
qed

lemma forEach_at_run_rules:
  assumes "\<forall>r \<in> set arr. leaves (elements rules) r" and "elements rules w a = arr"
  shows "forEach_at rules f a [k..<length arr] nv v w jr =
     (case run_rules f k (drop k arr) nv v w jr of (out, nv', w', jr') \<Rightarrow> (out, w', jr'))"
  using assms(2)
proof (induction "length arr - k" arbitrary: k nv v w jr)
  case 0
  then show ?case by simp
next
  case (Suc n)
  then have k: "k < length arr" by simp
  have upt: "[k..<length arr] = k # [Suc k..<length arr]" using k by (simp add: upt_conv_Cons)
  have drp: "drop k arr = arr ! k # drop (Suc k) arr" using k by (simp add: Cons_nth_drop_Suc)
  have live: "k < length (elements rules w a)" using k Suc.prems by simp
  have el: "elements rules w a ! k = arr ! k" using Suc.prems by simp
  show ?case
  proof (cases rule: rule_cases[where r="arr ! k" and nv=nv and w=w])
    case (throw e nv1 w1)
    then show ?thesis
      unfolding upt drp using live el
      by (simp add: forEach_at_throw run_rules_throw)
  next
    case (return result nv1 w1)
    have "leaves (elements rules) (arr ! k)" using assms(1) k by simp
    then have "elements rules w1 = elements rules w"
      using return unfolding leaves_def by (metis snd_conv)
    then have w1: "elements rules w1 a = arr" using Suc.prems by simp
    have n: "n = length arr - Suc k" using Suc.hyps(2) by simp
    show ?thesis
      unfolding upt drp
      using live el return Suc.hyps(1)[OF n w1]
      by (simp add: forEach_at.simps(2) run_rules_return_acc)
  qed
qed

lemma run_rules_leaves:
  "\<forall>r \<in> set rs. leaves view r \<Longrightarrow> run_rules f k rs nv v w jr = (out, nv', w', jr')
   \<Longrightarrow> view w' = view w"
proof (induction rs arbitrary: k nv v w jr)
  case Nil then show ?case by simp
next
  case (Cons r rs)
  have lv: "leaves view r" using Cons.prems(1) by simp
  show ?case
  proof (cases rule: rule_cases[where r=r and nv=nv and w=w])
    case (throw e nv1 w1)
    then have "view w1 = view w" using lv unfolding leaves_def by (metis snd_conv)
    then show ?thesis using throw Cons.prems(2) by (simp add: run_rules_throw)
  next
    case (return result nv1 w1)
    then have "view w1 = view w" using lv unfolding leaves_def by (metis snd_conv)
    then show ?thesis
      using return Cons.prems Cons.IH by (auto simp: run_rules_return_acc)
  qed
qed

lemma run_rules_append:
  "run_rules f k (xs @ ys) nv v w jr =
     (case run_rules f k xs nv v w jr of
        (Inl e, rest) \<Rightarrow> (Inl e, rest)
      | (Inr v1, nv1, w1, jr1) \<Rightarrow> run_rules f (k + length xs) ys nv1 v1 w1 jr1)"
proof (induction xs arbitrary: k nv v w jr)
  case Nil then show ?case by simp
next
  case (Cons r xs)
  show ?case
  proof (cases rule: rule_cases[where r=r and nv=nv and w=w])
    case (throw e nv1 w1)
    then show ?thesis by (simp add: run_rules_throw)
  next
    case (return result nv1 w1)
    then show ?thesis using Cons.IH
      by (simp add: run_rules_return_acc split: prod.splits sum.splits)
  qed
qed

lemma run_fields_append:
  "run_fields host data (xs @ ys) v w jr =
     (case run_fields host data xs v w jr of
        (Inl e, rest) \<Rightarrow> (Inl e, rest)
      | (Inr v1, w1, jr1) \<Rightarrow> run_fields host data ys v1 w1 jr1)"
proof (induction xs arbitrary: v w jr)
  case Nil then show ?case by simp
next
  case (Cons x xs)
  obtain f rs where x: "x = (f, rs)" by (cases x)
  show ?case
    using Cons.IH unfolding x
    by (auto split: sum.splits prod.splits)
qed

lemma for_in_rules_run_fields:
  assumes "distinct (map fst P)"
    and "\<forall>(f, a) \<in> set P. \<forall>r \<in> set (E a). leaves (properties rules) r \<and> leaves (elements rules) r"
    and "set ps \<subseteq> set P"
    and "properties rules w = P" and "elements rules w = E"
  shows "for_in_rules host data rules (map fst ps) v w jr =
     run_fields host data (map (\<lambda>(f, a). (f, E a)) ps) v w jr"
  using assms(3-5)
proof (induction ps arbitrary: v w jr)
  case Nil
  then show ?case by simp
next
  case (Cons p ps)
  obtain f a where p: "p = (f, a)" by (cases p)
  have mem: "(f, a) \<in> set P" using Cons.prems(1) p by simp
  then have look: "map_of (properties rules w) f = Some a"
    using assms(1) Cons.prems(2) by (simp add: map_of_is_SomeI)
  have fr: "\<forall>r \<in> set (E a). leaves (properties rules) r \<and> leaves (elements rules) r"
    using assms(2) mem by blast
  show ?case
  proof (cases "normalizeValue host (data_get (data w) f)")
    case (Inl e)
    then show ?thesis using look by (simp add: p for_in_rules.simps(2))
  next
    case (Inr nv)
    have el: "elements rules w a = E a" using Cons.prems(3) by simp
    have fe: "forEach rules f a nv v w jr =
        (case run_rules f 0 (E a) nv v w jr of (out, nv', w', jr') \<Rightarrow> (out, w', jr'))"
      unfolding forEach_def el
      using forEach_at_run_rules[of "E a" rules w a f 0 nv v jr] fr el by simp
    obtain out nv1 w1 j1 where rr: "run_rules f 0 (E a) nv v w jr = (out, nv1, w1, j1)"
      by (cases "run_rules f 0 (E a) nv v w jr") auto
    have p1: "properties rules w1 = P"
      using run_rules_leaves[OF _ rr, of "properties rules"] fr Cons.prems(2) by simp
    have e1: "elements rules w1 = E"
      using run_rules_leaves[OF _ rr, of "elements rules"] fr Cons.prems(3) by simp
    have sub: "set ps \<subseteq> set P" using Cons.prems(1) by simp
    show ?thesis
    proof (cases out)
      case (Inl e)
      then show ?thesis
        using look \<open>normalizeValue host (data_get (data w) f) = Inr nv\<close> fe rr
        by (simp add: p for_in_rules.simps(2))
    next
      case (Inr v1)
      then show ?thesis
        using look \<open>normalizeValue host (data_get (data w) f) = Inr nv\<close> fe rr
          Cons.IH[OF sub p1 e1, of v1 j1]
        by (simp add: p for_in_rules.simps(2))
    qed
  qed
qed

lemma entries_alt: "entries rules w = map (\<lambda>(f, a). (f, elements rules w a)) (properties rules w)"
  by (simp add: entries_def)


lemma validate_run_fields:
  assumes "distinct (map fst (properties rules w))"
    and "\<forall>(f, a) \<in> set (properties rules w). \<forall>r \<in> set (elements rules w a).
           leaves (properties rules) r \<and> leaves (elements rules) r"
  shows "validate host data (Some rules) w =
     run_fields host data (entries rules w) \<lparr>errors = Map.empty, valid = True\<rparr> w []"
  unfolding validate_def entries_def
  using for_in_rules_run_fields[OF assms(1) assms(2) subset_refl refl refl]
  by simp

lemma fixed_rules_properties:
  "properties (fixed_rules rs) w = zip (map fst rs) [0..<length rs]"
  by (simp add: fixed_rules_def)

lemma fixed_rules_elements:
  "elements (fixed_rules rs) w a = (if a < length rs then snd (rs ! a) else [])"
  by (simp add: fixed_rules_def)

lemma leaves_fixed:
  "leaves (properties (fixed_rules rs)) r" "leaves (elements (fixed_rules rs)) r"
  by (simp_all add: leaves_def fixed_rules_def)

lemma entries_fixed_rules: "entries (fixed_rules rs) w = rs"
proof (rule nth_equalityI)
  show "length (entries (fixed_rules rs) w) = length rs"
    by (simp add: entries_def fixed_rules_properties)
next
  fix i assume "i < length (entries (fixed_rules rs) w)"
  then have i: "i < length rs" by (simp add: entries_def fixed_rules_properties)
  then show "entries (fixed_rules rs) w ! i = rs ! i"
    by (simp add: entries_def fixed_rules_properties fixed_rules_elements prod_eq_iff)
qed

lemma validate_fixed:
  assumes "distinct (map fst rs)"
  shows "validate host data (Some (fixed_rules rs)) w =
     run_fields host data rs \<lparr>errors = Map.empty, valid = True\<rparr> w []"
proof -
  have d: "distinct (map fst (properties (fixed_rules rs) w))"
    using assms by (simp add: fixed_rules_properties)
  have "validate host data (Some (fixed_rules rs)) w =
     run_fields host data (entries (fixed_rules rs) w) \<lparr>errors = Map.empty, valid = True\<rparr> w []"
    by (rule validate_run_fields[OF d]) (simp add: leaves_fixed)
  then show ?thesis by (simp add: entries_fixed_rules)
qed

subsection \<open>The calls of a run over lists\<close>

lemma run_rules_calls:
  assumes "\<forall>r \<in> set rs. keeps_argument r"
    and "run_rules f k rs nv v w [] = (out, nv', w', jr)"
  shows "nv' = nv
     \<and> ((\<exists>v'. out = Inr v') \<longrightarrow>
          map (\<lambda>c. (call_field c, call_index c)) jr = map (Pair f) [k..<k + length rs])
     \<and> (\<forall>c \<in> set jr. call_field c = f \<and> call_argument c = nv \<and> k \<le> call_index c
          \<and> call_index c < k + length rs
          \<and> (rs ! (call_index c - k)) nv (call_before c) = (call_outcome c, nv, call_after c))"
  using assms
proof (induction rs arbitrary: k v w out jr)
  case Nil
  then show ?case by simp
next
  case (Cons r rs)
  have keep: "keeps_argument r" using Cons.prems(1) by simp
  show ?case
  proof (cases rule: rule_cases[where r=r and nv=nv and w=w])
    case (throw e nv1 w1)
    have "nv1 = nv" using keep throw unfolding keeps_argument_def by (metis fst_conv snd_conv)
    then show ?thesis using throw Cons.prems(2) by (auto simp: run_rules_throw)
  next
    case (return result nv1 w1)
    have nv1: "nv1 = nv" using keep return unfolding keeps_argument_def by (metis fst_conv snd_conv)
    let ?c = "\<lparr>call_field = f, call_index = k, call_argument = nv,
                           call_before = w, call_outcome = Inr result, call_after = w1\<rparr>"
    let ?v = "(if \<not> pass result
              then v\<lparr>valid := False, errors := set_error f (message result) (errors v)\<rparr>
              else v)"
    obtain new where new: "run_rules f (Suc k) rs nv ?v w1 [] = (out, nv', w', new)"
      and jr: "jr = ?c # new"
      using return Cons.prems(2) nv1 by (auto simp: run_rules_return split: prod.splits)
    have ks: "\<forall>r \<in> set rs. keeps_argument r" using Cons.prems(1) by simp
    note ih = Cons.IH[OF ks new]
    have upt: "[k..<k + length (r # rs)] = k # [Suc k..<Suc k + length rs]"
      by (subst upt_rec) simp
    have here: "(r # rs) ! (call_index ?c - k) = r" by simp
    have there: "(r # rs) ! (call_index c - k) = rs ! (call_index c - Suc k)"
      if "Suc k \<le> call_index c" for c :: "'a callType"
      using that by (simp add: Suc_diff_le)
    show ?thesis
      unfolding jr upt
      using ih return nv1 there by auto
  qed
qed





section \<open>Properties of validate\<close>

lemma validate_Some:
  "validate host data (Some rules) w =
     for_in_rules host data rules (map fst (properties rules w))
       \<lparr>errors = Map.empty, valid = True\<rparr> w []"
  by (simp add: validate_def)

lemma validate_None:
  "validate host data None w = (Inr \<lparr>errors = Map.empty, valid = True\<rparr>, w, [])"
  by (simp add: validate_def)

lemma validate_no_properties:
  "properties rules w = [] \<Longrightarrow>
   validate host data (Some rules) w = (Inr \<lparr>errors = Map.empty, valid = True\<rparr>, w, [])"
  by (simp add: validate_def)


lemma returned_not_Inl: "returned c \<Longrightarrow> call_outcome c \<noteq> Inl e"
  by (auto simp: returned_def split: sum.splits)


lemma validate_throw_general:
  assumes "validate host data rules_arg w = (out, w', jr)"
    and "c \<in> set jr" and "call_outcome c = Inl e"
  shows "out = Inl e \<and> w' = call_after c \<and> c = last jr"
proof (cases rules_arg)
  case None
  then show ?thesis using assms by (simp add: validate_None)
next
  case (Some rules)
  then have run: "for_in_rules host data rules (map fst (properties rules w))
       \<lparr>errors = Map.empty, valid = True\<rparr> w [] = (out, w', jr)"
    using assms(1) by (simp add: validate_Some)
  have not_all: "\<not> list_all returned jr"
    using assms(2,3) returned_not_Inl by (auto simp: list_all_iff)
  show ?thesis
  proof (cases out)
    case (Inr v)
    then have "for_in_rules host data rules (map fst (properties rules w))
       \<lparr>errors = Map.empty, valid = True\<rparr> w [] = (Inr v, w', jr)"
      using run by simp
    from for_in_rules_Inr[OF this] not_all show ?thesis by simp
  next
    case (Inl e')
    then have "for_in_rules host data rules (map fst (properties rules w))
       \<lparr>errors = Map.empty, valid = True\<rparr> w [] = (Inl e', w', jr)"
      using run by simp
    from for_in_rules_Inl[OF this] not_all
    obtain pre c' where jr: "jr = pre @ [c']" and pre: "list_all returned pre"
      and c': "call_outcome c' = Inl e'"
      by blast
    have "c \<notin> set pre" using pre assms(3) returned_not_Inl by (auto simp: list_all_iff)
    then have cc: "c = c'" using assms(2) jr by simp
    have "chained w (pre @ [c']) w'" using for_in_rules_chained[OF run] jr by simp
    then have "call_after c' = w'" by (rule chained_snoc)
    then show ?thesis using cc c' assms(3) Inl jr by simp
  qed
qed

lemma run_rules_keeps:
  "\<forall>r \<in> set rs. keeps_argument r \<Longrightarrow> run_rules f k rs nv v w jr = (out, nv', w', jr')
   \<Longrightarrow> nv' = nv"
  using run_rules_calls[of rs f k nv v w] run_rules_acc[of f k rs nv v w jr]
  by (auto split: prod.splits)

lemma run_fields_prefix:
  assumes "run_fields host data (before @ [(f, rs1)]) v w jr = (Inr v1, w1, jr1)"
  obtains nv0 nv1 vb wb jb where
    "run_fields host data before v w jr = (Inr vb, wb, jb)"
    "normalizeValue host (data_get (data wb) f) = Inr nv0"
    "run_rules f 0 rs1 nv0 vb wb jb = (Inr v1, nv1, w1, jr1)"
  using assms unfolding run_fields_append
  by (auto split: sum.splits prod.splits)

lemma run_fields_throw:
  assumes "run_fields host data before v w jr = (Inr vb, wb, jb)"
    and "normalizeValue host (data_get (data wb) f) = Inr nv0"
    and "run_rules f 0 rs1 nv0 vb wb jb = (Inr v1, nv1, w1, jr1)"
    and "rule nv1 w1 = (Inl e, nv2, w2)"
  shows "run_fields host data (before @ (f, rs1 @ rule # rs2) # after) v w jr =
     (Inl e, w2, jr1 @ [\<lparr>call_field = f, call_index = length rs1, call_argument = nv1,
                          call_before = w1, call_outcome = Inl e, call_after = w2\<rparr>])"
  using assms by (simp add: run_fields_append run_rules_append run_rules_throw)

lemma distinct_prefix:
  "distinct (map fst (before @ (f, rs) # after)) \<Longrightarrow> distinct (map fst (before @ [(f, rs')]))"
  by simp

lemma validate_throw_fixed:
  assumes "distinct (map fst (before @ (f, rs1 @ rule # rs2) # after))"
    and "\<forall>r \<in> set rs1. keeps_argument r \<and> leaves data r"
    and "validate host data (Some (fixed_rules (before @ [(f, rs1)]))) w = (Inr v1, w1, jr1)"
    and "normalizeValue host (data_get (data w1) f) = Inr nv"
    and "rule nv w1 = (Inl e, nv2, w2)"
  shows "validate host data (Some (fixed_rules (before @ (f, rs1 @ rule # rs2) # after))) w =
     (Inl e, w2, jr1 @ [\<lparr>call_field = f, call_index = length rs1, call_argument = nv,
                          call_before = w1, call_outcome = Inl e, call_after = w2\<rparr>])"
proof -
  have d: "distinct (map fst (before @ [(f, rs1)]))" using assms(1) by (rule distinct_prefix)
  have pre: "run_fields host data (before @ [(f, rs1)]) \<lparr>errors = Map.empty, valid = True\<rparr> w []
      = (Inr v1, w1, jr1)"
    using assms(3) unfolding validate_fixed[OF d] .
  obtain nv0 nv1 vb wb jb where
    b: "run_fields host data before \<lparr>errors = Map.empty, valid = True\<rparr> w [] = (Inr vb, wb, jb)"
    and n: "normalizeValue host (data_get (data wb) f) = Inr nv0"
    and r: "run_rules f 0 rs1 nv0 vb wb jb = (Inr v1, nv1, w1, jr1)"
    by (rule run_fields_prefix[OF pre])
  have k: "\<forall>r \<in> set rs1. keeps_argument r" and l: "\<forall>r \<in> set rs1. leaves data r"
    using assms(2) by blast+
  have "nv1 = nv0" using k r by (rule run_rules_keeps)
  moreover have "data w1 = data wb" using l r by (rule run_rules_leaves[where view=data])
  ultimately have "nv1 = nv" using n assms(4) by simp
  then have t: "rule nv1 w1 = (Inl e, nv2, w2)" using assms(5) by simp
  have "run_fields host data (before @ (f, rs1 @ rule # rs2) # after)
          \<lparr>errors = Map.empty, valid = True\<rparr> w [] =
     (Inl e, w2, jr1 @ [\<lparr>call_field = f, call_index = length rs1, call_argument = nv1,
                          call_before = w1, call_outcome = Inl e, call_after = w2\<rparr>])"
    using b n r t by (rule run_fields_throw)
  then show ?thesis unfolding validate_fixed[OF assms(1)] \<open>nv1 = nv\<close> .
qed

lemma validate_throw_anywhere:
  assumes "distinct (map fst (before @ (f, rs1 @ rule # rs2) # after))"
    and "validate host data (Some (fixed_rules (before @ [(f, rs1)]))) w = (Inr v1, w1, jr1)"
    and "\<forall>nv. \<exists>nv2. rule nv w1 = (Inl e, nv2, w2)"
  shows "\<exists>c. validate host data (Some (fixed_rules (before @ (f, rs1 @ rule # rs2) # after))) w =
     (Inl e, w2, jr1 @ [c])
     \<and> call_field c = f \<and> call_index c = length rs1 \<and> call_outcome c = Inl e"
proof -
  have d: "distinct (map fst (before @ [(f, rs1)]))" using assms(1) by (rule distinct_prefix)
  have pre: "run_fields host data (before @ [(f, rs1)]) \<lparr>errors = Map.empty, valid = True\<rparr> w []
      = (Inr v1, w1, jr1)"
    using assms(2) unfolding validate_fixed[OF d] .
  obtain nv0 nv1 vb wb jb where
    b: "run_fields host data before \<lparr>errors = Map.empty, valid = True\<rparr> w [] = (Inr vb, wb, jb)"
    and n: "normalizeValue host (data_get (data wb) f) = Inr nv0"
    and r: "run_rules f 0 rs1 nv0 vb wb jb = (Inr v1, nv1, w1, jr1)"
    by (rule run_fields_prefix[OF pre])
  obtain nv2 where t: "rule nv1 w1 = (Inl e, nv2, w2)" using assms(3) by blast
  have "run_fields host data (before @ (f, rs1 @ rule # rs2) # after)
          \<lparr>errors = Map.empty, valid = True\<rparr> w [] =
     (Inl e, w2, jr1 @ [\<lparr>call_field = f, call_index = length rs1, call_argument = nv1,
                          call_before = w1, call_outcome = Inl e, call_after = w2\<rparr>])"
    using b n r t by (rule run_fields_throw)
  then have "validate host data (Some (fixed_rules (before @ (f, rs1 @ rule # rs2) # after))) w =
     (Inl e, w2, jr1 @ [\<lparr>call_field = f, call_index = length rs1, call_argument = nv1,
                          call_before = w1, call_outcome = Inl e, call_after = w2\<rparr>])"
    unfolding validate_fixed[OF assms(1)] .
  moreover have "call_field \<lparr>call_field = f, call_index = length rs1, call_argument = nv1,
                          call_before = w1, call_outcome = Inl e, call_after = w2\<rparr> = f
     \<and> call_index \<lparr>call_field = f, call_index = length rs1, call_argument = nv1,
                          call_before = w1, call_outcome = Inl e, call_after = w2\<rparr> = length rs1
     \<and> call_outcome \<lparr>call_field = f, call_index = length rs1, call_argument = nv1,
                          call_before = w1, call_outcome = Inl e, call_after = w2\<rparr> = Inl e"
    by simp
  ultimately show ?thesis by blast
qed





section \<open>The claims about validate\<close>

lemma keeps_argument_examples:
  "keeps_argument (fixed_rule p msg)" "keeps_argument (present_rule msg)"
  "keeps_argument (throwing_rule x)"
  by (simp_all add: keeps_argument_def fixed_rule_def present_rule_def throwing_rule_def)

lemma leaves_constant: "leaves (\<lambda>w. c) rule"
  by (simp add: leaves_def)


text \<open>The definitions that a run on concrete data unfolds.\<close>

lemmas run_simps =
  validate_def for_in_rules.simps forEach_def forEach_at.simps fixed_rules_def
  normalizeValue_def mode_def data_get_def plain_object_def Object_prototype_def js_str_def
  set_error_def trim_def trimStart_def trimEnd_def is_white_space_def
  fixed_rule_def present_rule_def throwing_rule_def retagging_rule_def tag_rule_def
  writing_rule_def failing_rule_def popping_rule_def shrinking_rules_def







text \<open>
  C8. An exception thrown by a rule evaluator is the outcome of \<open>validate\<close>. Whatever the
  rules do: a call that threw is the last call made, and \<open>validate\<close> ends with its
  exception, in the world that call left, with no validation result. And for a rule-set
  that stays as written: when the rules before a rule have returned and the rule throws,
  \<open>validate\<close> returns that exception in place of a validation result, the world is the
  one the throwing rule left, and no later rule runs.
\<close>

theorem validate_rule_exception_propagates:
  "(validate host data rules_arg w = (out, w', jr) \<longrightarrow> c \<in> set jr \<longrightarrow> call_outcome c = Inl e
      \<longrightarrow> out = Inl e \<and> w' = call_after c \<and> c = last jr)
   \<and> (distinct (map fst rules) \<longrightarrow> rules = before @ (f, rs1 @ rule # rs2) # after
      \<longrightarrow> (\<forall>r \<in> set rs1. keeps_argument r \<and> leaves data r)
      \<longrightarrow> validate host data (Some (fixed_rules (before @ [(f, rs1)]))) w = (Inr v1, w1, jr1)
      \<longrightarrow> normalizeValue host (data_get (data w1) f) = Inr nv
      \<longrightarrow> rule nv w1 = (Inl e, nv2, w2)
      \<longrightarrow> validate host data (Some (fixed_rules rules)) w
            = (Inl e, w2,
               jr1 @ [\<lparr>call_field = f, call_index = length rs1, call_argument = nv,
                        call_before = w1, call_outcome = Inl e, call_after = w2\<rparr>]))"
proof (intro conjI impI)
  assume "validate host data rules_arg w = (out, w', jr)" "c \<in> set jr" "call_outcome c = Inl e"
  then have g: "out = Inl e \<and> w' = call_after c \<and> c = last jr"
    by (rule validate_throw_general)
  from g show "out = Inl e" by simp
  from g show "w' = call_after c" by simp
  from g show "c = last jr" by simp
next
  assume d: "distinct (map fst rules)" and r: "rules = before @ (f, rs1 @ rule # rs2) # after"
    and k: "\<forall>r \<in> set rs1. keeps_argument r \<and> leaves data r"
    and p: "validate host data (Some (fixed_rules (before @ [(f, rs1)]))) w = (Inr v1, w1, jr1)"
    and n: "normalizeValue host (data_get (data w1) f) = Inr nv"
    and t: "rule nv w1 = (Inl e, nv2, w2)"
  from d have "distinct (map fst (before @ (f, rs1 @ rule # rs2) # after))" unfolding r .
  from this k p n t show "validate host data (Some (fixed_rules rules)) w
            = (Inl e, w2,
               jr1 @ [\<lparr>call_field = f, call_index = length rs1, call_argument = nv,
                        call_before = w1, call_outcome = Inl e, call_after = w2\<rparr>])"
    unfolding r by (rule validate_throw_fixed)
qed

theorem validate_rule_exception_propagates_witness:
  "validate \<lparr>module_exports = True, File_global = False\<rparr>
      (\<lambda>w. plain_object [[0x61] \<mapsto> JBoolean True])
      (Some (fixed_rules
         [([0x61], [fixed_rule False [0x41]]),
          ([0x62], [fixed_rule True [0x42], throwing_rule (JString [0x21]),
                    fixed_rule False [0x44]]),
          ([0x63], [fixed_rule False [0x45]])])) 0
     = (Inl (Thrown (JString [0x21])), 3,
        [\<lparr>call_field = [0x61], call_index = 0,
          call_argument = \<lparr>type = ''boolean'', value' = JBoolean True\<rparr>,
          call_before = 0, call_outcome = Inr \<lparr>pass = False, message = [0x41]\<rparr>,
          call_after = 1\<rparr>,
         \<lparr>call_field = [0x62], call_index = 0,
          call_argument = \<lparr>type = ''nullish'', value' = JNull\<rparr>,
          call_before = 1, call_outcome = Inr \<lparr>pass = True, message = [0x42]\<rparr>,
          call_after = 2\<rparr>,
         \<lparr>call_field = [0x62], call_index = 1,
          call_argument = \<lparr>type = ''nullish'', value' = JNull\<rparr>,
          call_before = 2, call_outcome = Inl (Thrown (JString [0x21])),
          call_after = 3\<rparr>])
   \<and> call_outcome \<lparr>call_field = [0x62], call_index = 1,
          call_argument = \<lparr>type = ''nullish'', value' = JNull\<rparr>,
          call_before = 2 :: nat, call_outcome = Inl (Thrown (JString [0x21])),
          call_after = 3 :: nat\<rparr> = Inl (Thrown (JString [0x21]))
   \<and> \<lparr>call_field = [0x62], call_index = 1,
          call_argument = \<lparr>type = ''nullish'', value' = JNull\<rparr>,
          call_before = 2 :: nat, call_outcome = Inl (Thrown (JString [0x21])),
          call_after = 3 :: nat\<rparr>
       \<in> set [\<lparr>call_field = [0x61], call_index = 0,
          call_argument = \<lparr>type = ''boolean'', value' = JBoolean True\<rparr>,
          call_before = 0, call_outcome = Inr \<lparr>pass = False, message = [0x41]\<rparr>,
          call_after = 1\<rparr>,
         \<lparr>call_field = [0x62], call_index = 0,
          call_argument = \<lparr>type = ''nullish'', value' = JNull\<rparr>,
          call_before = 1, call_outcome = Inr \<lparr>pass = True, message = [0x42]\<rparr>,
          call_after = 2\<rparr>,
         \<lparr>call_field = [0x62], call_index = 1,
          call_argument = \<lparr>type = ''nullish'', value' = JNull\<rparr>,
          call_before = 2, call_outcome = Inl (Thrown (JString [0x21])),
          call_after = 3\<rparr>]"
proof -
  let ?host = "\<lparr>module_exports = True, File_global = False\<rparr>"
  let ?data = "\<lambda>w :: nat. plain_object [[0x61] \<mapsto> JBoolean True]"
  let ?nv = "\<lparr>type = ''nullish'', value' = JNull\<rparr>"
  let ?c1 = "\<lparr>call_field = [0x61], call_index = 0,
          call_argument = \<lparr>type = ''boolean'', value' = JBoolean True\<rparr>,
          call_before = 0 :: nat, call_outcome = Inr \<lparr>pass = False, message = [0x41]\<rparr>,
          call_after = 1 :: nat\<rparr>"
  let ?c2 = "\<lparr>call_field = [0x62], call_index = 0, call_argument = ?nv,
          call_before = 1 :: nat, call_outcome = Inr \<lparr>pass = True, message = [0x42]\<rparr>,
          call_after = 2 :: nat\<rparr>"
  let ?c3 = "\<lparr>call_field = [0x62], call_index = 1, call_argument = ?nv,
          call_before = 2 :: nat, call_outcome = Inl (Thrown (JString [0x21])),
          call_after = 3 :: nat\<rparr>"
  let ?rules = "[([0x61 :: 16 word], [fixed_rule False [0x41]]),
          ([0x62], [fixed_rule True [0x42], throwing_rule (JString [0x21]),
                    fixed_rule False [0x44]]),
          ([0x63], [fixed_rule False [0x45]])]"
  have d: "distinct (map fst ?rules)" by simp
  have shape: "?rules = [([0x61 :: 16 word], [fixed_rule False [0x41]])]
       @ ([0x62], [fixed_rule True [0x42]] @ throwing_rule (JString [0x21])
                    # [fixed_rule False [0x44]])
       # [([0x63], [fixed_rule False [0x45]])]"
    by simp
  have k: "\<forall>r \<in> set [fixed_rule True [0x42]]. keeps_argument r \<and> leaves ?data r"
    by (simp add: keeps_argument_examples leaves_constant)
  have pre: "validate ?host ?data
      (Some (fixed_rules ([([0x61], [fixed_rule False [0x41]])]
                          @ [([0x62], [fixed_rule True [0x42]])]))) 0
     = (Inr \<lparr>errors = [[0x61] \<mapsto> [0x41]], valid = False\<rparr>, 2, [?c1, ?c2])"
    by (simp add: run_simps)
  have nv: "normalizeValue ?host (data_get (?data 2) [0x62]) = Inr ?nv"
    by (simp add: run_simps)
  have throw: "throwing_rule (JString [0x21]) ?nv 2 = (Inl (Thrown (JString [0x21])), ?nv, 3)"
    by (simp add: throwing_rule_def)
  note inst = validate_rule_exception_propagates[
      where rules = ?rules and before = "[([0x61], [fixed_rule False [0x41]])]"
        and f = "[0x62]" and ?rs1.0 = "[fixed_rule True [0x42]]"
        and rule = "throwing_rule (JString [0x21])" and ?rs2.0 = "[fixed_rule False [0x44]]"
        and after = "[([0x63], [fixed_rule False [0x45]])]"
        and host = ?host and data = ?data and w = 0 and ?v1.0 = "\<lparr>errors = [[0x61] \<mapsto> [0x41]], valid = False\<rparr>"
        and ?w1.0 = 2 and ?jr1.0 = "[?c1, ?c2]" and nv = ?nv
        and e = "Thrown (JString [0x21])" and ?nv2.0 = ?nv and ?w2.0 = 3
        and rules_arg = "Some (fixed_rules ?rules)" and out = "Inl (Thrown (JString [0x21]))"
        and w' = 3 and jr = "[?c1, ?c2, ?c3]" and c = ?c3]
  from inst have "distinct (map fst ?rules) \<longrightarrow>
      ?rules = [([0x61 :: 16 word], [fixed_rule False [0x41]])]
       @ ([0x62], [fixed_rule True [0x42]] @ throwing_rule (JString [0x21])
                    # [fixed_rule False [0x44]])
       # [([0x63], [fixed_rule False [0x45]])] \<longrightarrow>
      (\<forall>r \<in> set [fixed_rule True [0x42]]. keeps_argument r \<and> leaves ?data r) \<longrightarrow>
      validate ?host ?data
        (Some (fixed_rules ([([0x61], [fixed_rule False [0x41]])]
                          @ [([0x62], [fixed_rule True [0x42]])]))) 0
       = (Inr \<lparr>errors = [[0x61] \<mapsto> [0x41]], valid = False\<rparr>, 2, [?c1, ?c2]) \<longrightarrow>
      normalizeValue ?host (data_get (?data 2) [0x62]) = Inr ?nv \<longrightarrow>
      throwing_rule (JString [0x21]) ?nv 2 = (Inl (Thrown (JString [0x21])), ?nv, 3) \<longrightarrow>
      validate ?host ?data (Some (fixed_rules ?rules)) 0
        = (Inl (Thrown (JString [0x21])), 3,
           [?c1, ?c2] @ [\<lparr>call_field = [0x62], call_index = length [fixed_rule True [0x42] :: nat ruleType],
              call_argument = ?nv, call_before = 2, call_outcome = Inl (Thrown (JString [0x21])),
              call_after = 3\<rparr>])"
    by (rule conjunct2)
  from this d shape k pre nv throw
  have "validate ?host ?data (Some (fixed_rules ?rules)) 0
        = (Inl (Thrown (JString [0x21])), 3,
           [?c1, ?c2] @ [\<lparr>call_field = [0x62], call_index = length [fixed_rule True [0x42] :: nat ruleType],
              call_argument = ?nv, call_before = 2, call_outcome = Inl (Thrown (JString [0x21])),
              call_after = 3\<rparr>])"
    by blast
  then have run: "validate ?host ?data (Some (fixed_rules ?rules)) 0
        = (Inl (Thrown (JString [0x21])), 3, [?c1, ?c2, ?c3])"
    by simp
  have m: "?c3 \<in> set [?c1, ?c2, ?c3]" and o: "call_outcome ?c3 = Inl (Thrown (JString [0x21]))"
    by simp_all
  note general = inst[THEN conjunct1, rule_format, OF run m o]
  show ?thesis using run general by simp
qed

lemma build_rule_list_unregistered:
  "(name, config, msg) \<in> set uses \<Longrightarrow> registry name = None
   \<Longrightarrow> build_rule_list registry uses = Inl RuleNotFound"
proof (induction uses)
  case Nil then show ?case by simp
next
  case (Cons u uses)
  obtain n c m where u: "u = (n, c, m)" by (cases u)
  show ?case
  proof (cases "registry n")
    case None then show ?thesis by (simp add: u buildRule_def get_def)
  next
    case (Some fac)
    then have "(name, config, msg) \<in> set uses" using Cons.prems u by auto
    then show ?thesis using Cons.IH Cons.prems(2) Some by (simp add: u buildRule_def get_def)
  qed
qed

lemma build_rule_list_error: "build_rule_list registry uses = Inl e \<Longrightarrow> e = RuleNotFound"
  by (induction registry uses rule: build_rule_list.induct)
     (auto simp: buildRule_def get_def split: option.splits sum.splits)

lemma build_rules_unregistered:
  "(f, uses) \<in> set named \<Longrightarrow> (name, config, msg) \<in> set uses \<Longrightarrow> registry name = None
   \<Longrightarrow> build_rules registry named = Inl RuleNotFound"
proof (induction named)
  case Nil then show ?case by simp
next
  case (Cons a named)
  obtain g us where a: "a = (g, us)" by (cases a)
  show ?case
  proof (cases "build_rule_list registry us")
    case (Inl e)
    then show ?thesis using build_rule_list_error[OF Inl] by (simp add: a)
  next
    case (Inr rs)
    then have "(f, uses) \<in> set named"
      using Cons.prems build_rule_list_unregistered[of name config msg us registry] a by auto
    then show ?thesis using Cons.IH Cons.prems Inr by (simp add: a)
  qed
qed

text \<open>
  C9. An unregistered rule name makes \<open>get\<close> and \<open>buildRule\<close> fail with
  \<open>RuleNotFound\<close>. A rule-set that uses the name cannot be built: the failure is the
  outcome of the validation and no rule evaluator has run. Where the lookup is made when the
  rule is invoked, the rule is not skipped: once the rules before it have returned,
  \<open>validate\<close> ends with \<open>RuleNotFound\<close> there, the call of the unregistered rule being
  the last one made. Either way no validation result, and so no verdict on any field, is
  returned.
\<close>

theorem unregistered_rule_RuleNotFound:
  assumes "registry name = None"
  shows "get registry name = Inl RuleNotFound
     \<and> buildRule registry name config msg = Inl RuleNotFound
     \<and> ((f, uses) \<in> set named \<longrightarrow> (name, config, msg) \<in> set uses \<longrightarrow>
          validate_named host registry data named w = (Inl RuleNotFound, w, []))
     \<and> (distinct (map fst (before @ (g, rs1 @ rule_by_name registry name config msg # rs2) # after))
        \<longrightarrow> validate host data (Some (fixed_rules (before @ [(g, rs1)]))) w = (Inr v1, w1, jr1) \<longrightarrow>
          (\<exists>c. validate host data
                 (Some (fixed_rules
                    (before @ (g, rs1 @ rule_by_name registry name config msg # rs2) # after))) w
               = (Inl RuleNotFound, w1, jr1 @ [c])
               \<and> call_field c = g \<and> call_index c = length rs1
               \<and> call_outcome c = Inl RuleNotFound))"
proof (intro conjI impI)
  show "get registry name = Inl RuleNotFound"
    using assms by (simp add: get_def)
  show "buildRule registry name config msg = Inl RuleNotFound"
    using assms by (simp add: buildRule_def get_def)
  show "validate_named host registry data named w = (Inl RuleNotFound, w, [])"
    if "(f, uses) \<in> set named" and "(name, config, msg) \<in> set uses"
  proof -
    have "build_rules registry named = Inl RuleNotFound"
      using that assms by (rule build_rules_unregistered)
    then show ?thesis by (simp add: validate_named_def)
  qed
  show "\<exists>c. validate host data
                 (Some (fixed_rules
                    (before @ (g, rs1 @ rule_by_name registry name config msg # rs2) # after))) w
               = (Inl RuleNotFound, w1, jr1 @ [c])
               \<and> call_field c = g \<and> call_index c = length rs1
               \<and> call_outcome c = Inl RuleNotFound"
    if d: "distinct (map fst (before @ (g, rs1 @ rule_by_name registry name config msg # rs2) # after))"
      and pre: "validate host data (Some (fixed_rules (before @ [(g, rs1)]))) w = (Inr v1, w1, jr1)"
  proof -
    have "\<forall>nv. \<exists>nv2. rule_by_name registry name config msg nv w1 = (Inl RuleNotFound, nv2, w1)"
      using assms by (simp add: rule_by_name_def get_def)
    with d pre show ?thesis by (rule validate_throw_anywhere)
  qed
qed

theorem unregistered_rule_RuleNotFound_witness:
  "add Map.empty [0x70] (\<lambda>config msg. present_rule [0x50]) [0x71] = None
   \<and> get (add Map.empty [0x70] (\<lambda>config msg. present_rule [0x50])) [0x71] = Inl RuleNotFound
   \<and> validate_named \<lparr>module_exports = True, File_global = False\<rparr>
        (add Map.empty [0x70] (\<lambda>config msg. present_rule [0x50]))
        (\<lambda>w. plain_object [[0x61] \<mapsto> JString [0x78]])
        [([0x61], [([0x70], None, None)]),
         ([0x62], [([0x70], None, None), ([0x71], None, None)])] 0
      = (Inl RuleNotFound, 0, [])
   \<and> validate \<lparr>module_exports = True, File_global = False\<rparr>
        (\<lambda>w. plain_object [[0x61] \<mapsto> JString [0x78]])
        (Some (fixed_rules
           [([0x61], [present_rule [0x50]]),
            ([0x62], [present_rule [0x51],
                      rule_by_name (add Map.empty [0x70] (\<lambda>config msg. present_rule [0x50]))
                        [0x71] None None,
                      present_rule [0x52]])])) 0
      = (Inl RuleNotFound, 2,
         [\<lparr>call_field = [0x61], call_index = 0,
           call_argument = \<lparr>type = ''string'', value' = JString [0x78]\<rparr>,
           call_before = 0, call_outcome = Inr \<lparr>pass = True, message = [0x50]\<rparr>,
           call_after = 1\<rparr>,
          \<lparr>call_field = [0x62], call_index = 0,
           call_argument = \<lparr>type = ''nullish'', value' = JNull\<rparr>,
           call_before = 1, call_outcome = Inr \<lparr>pass = False, message = [0x51]\<rparr>,
           call_after = 2\<rparr>,
          \<lparr>call_field = [0x62], call_index = 1,
           call_argument = \<lparr>type = ''nullish'', value' = JNull\<rparr>,
           call_before = 2, call_outcome = Inl RuleNotFound,
           call_after = 2\<rparr>])"
proof -
  let ?reg = "add Map.empty [0x70] (\<lambda>config msg. present_rule [0x50])"
  let ?host = "\<lparr>module_exports = True, File_global = False\<rparr>"
  let ?data = "\<lambda>w :: nat. plain_object [[0x61] \<mapsto> JString [0x78]]"
  have c: "?reg [0x71] = None"
    by (simp add: add_def)
  have a: "([0x62], [([0x70], None, None), ([0x71], None, None)])
      \<in> set [([0x61 :: 16 word], [([0x70 :: 16 word], None, None)]),
              ([0x62], [([0x70], None, None), ([0x71], None, None)])]"
    by simp
  have b: "([0x71], None, None) \<in> set [([0x70 :: 16 word], None, None), ([0x71], None, None)]"
    by simp
  have d: "distinct (map fst ([([0x61 :: 16 word], [present_rule [0x50]])]
        @ ([0x62], [present_rule [0x51]] @ rule_by_name ?reg [0x71] None None
                     # [present_rule [0x52]]) # []))"
    by simp
  have pre: "validate ?host ?data
        (Some (fixed_rules ([([0x61], [present_rule [0x50]])]
                            @ [([0x62], [present_rule [0x51]])]))) 0
      = (Inr \<lparr>errors = [[0x62] \<mapsto> [0x51]], valid = False\<rparr>, 2,
         [\<lparr>call_field = [0x61], call_index = 0,
           call_argument = \<lparr>type = ''string'', value' = JString [0x78]\<rparr>,
           call_before = 0, call_outcome = Inr \<lparr>pass = True, message = [0x50]\<rparr>,
           call_after = 1\<rparr>,
          \<lparr>call_field = [0x62], call_index = 0,
           call_argument = \<lparr>type = ''nullish'', value' = JNull\<rparr>,
           call_before = 1, call_outcome = Inr \<lparr>pass = False, message = [0x51]\<rparr>,
           call_after = 2\<rparr>])"
    by (simp add: run_simps)
  have run: "validate ?host ?data
        (Some (fixed_rules
           [([0x61], [present_rule [0x50]]),
            ([0x62], [present_rule [0x51], rule_by_name ?reg [0x71] None None,
                      present_rule [0x52]])])) 0
      = (Inl RuleNotFound, 2,
         [\<lparr>call_field = [0x61], call_index = 0,
           call_argument = \<lparr>type = ''string'', value' = JString [0x78]\<rparr>,
           call_before = 0, call_outcome = Inr \<lparr>pass = True, message = [0x50]\<rparr>,
           call_after = 1\<rparr>,
          \<lparr>call_field = [0x62], call_index = 0,
           call_argument = \<lparr>type = ''nullish'', value' = JNull\<rparr>,
           call_before = 1, call_outcome = Inr \<lparr>pass = False, message = [0x51]\<rparr>,
           call_after = 2\<rparr>,
          \<lparr>call_field = [0x62], call_index = 1,
           call_argument = \<lparr>type = ''nullish'', value' = JNull\<rparr>,
           call_before = 2, call_outcome = Inl RuleNotFound,
           call_after = 2\<rparr>])"
    by (simp add: run_simps rule_by_name_def get_def add_def)
  note inst = unregistered_rule_RuleNotFound[
      where registry = "?reg" and name = "[0x71]" and config = None and msg = None
        and host = ?host and data = ?data and w = 0
        and f = "[0x62]" and uses = "[([0x70], None, None), ([0x71], None, None)]"
        and named = "[([0x61], [([0x70], None, None)]),
                      ([0x62], [([0x70], None, None), ([0x71], None, None)])]"
        and before = "[([0x61], [present_rule [0x50]])]" and g = "[0x62]"
        and ?rs1.0 = "[present_rule [0x51]]" and ?rs2.0 = "[present_rule [0x52]]"
        and after = "[]", OF c]
  note g = inst[THEN conjunct1]
  note n = inst[THEN conjunct2, THEN conjunct2, THEN conjunct1, rule_format, OF a b]
  note l = inst[THEN conjunct2, THEN conjunct2, THEN conjunct2, rule_format, OF d pre]
  show ?thesis
    using c g n l run by simp
qed

text \<open>
  C10. With the empty rule-set, with the rule-set omitted, and with any rule-set that has
  no property, \<open>validate\<close> returns \<open>{ valid: true, errors: {} }\<close> whatever \<open>data\<close>
  holds; no rule is called and nothing is changed.
\<close>

theorem validate_empty_rules:
  "validate host data (Some (fixed_rules [])) w
     = (Inr \<lparr>errors = Map.empty, valid = True\<rparr>, w, [])
   \<and> validate host data None w = (Inr \<lparr>errors = Map.empty, valid = True\<rparr>, w, [])
   \<and> (properties rules w = [] \<longrightarrow>
        validate host data (Some rules) w = (Inr \<lparr>errors = Map.empty, valid = True\<rparr>, w, []))"
  by (simp add: validate_def fixed_rules_def)

theorem validate_empty_rules_witness:
  "properties \<lparr>properties = (\<lambda>w :: nat. []),
               elements = (\<lambda>w a. [throwing_rule JNull])\<rparr> 0 = []
   \<and> validate \<lparr>module_exports = False, File_global = False\<rparr>
        (\<lambda>w. plain_object [[0x61] \<mapsto> JRevokedProxy])
        (Some \<lparr>properties = (\<lambda>w. []), elements = (\<lambda>w a. [throwing_rule JNull])\<rparr>) 0
      = (Inr \<lparr>errors = Map.empty, valid = True\<rparr>, 0, [])
   \<and> validate \<lparr>module_exports = False, File_global = False\<rparr>
        (\<lambda>w. plain_object [[0x61] \<mapsto> JRevokedProxy]) (Some (fixed_rules [])) (0 :: nat)
      = (Inr \<lparr>errors = Map.empty, valid = True\<rparr>, 0, [])
   \<and> validate \<lparr>module_exports = False, File_global = False\<rparr>
        (\<lambda>w. plain_object [[0x61] \<mapsto> JRevokedProxy]) None (0 :: nat)
      = (Inr \<lparr>errors = Map.empty, valid = True\<rparr>, 0, [])"
  using validate_empty_rules[where host = "\<lparr>module_exports = False, File_global = False\<rparr>"
      and data = "\<lambda>w. plain_object [[0x61] \<mapsto> JRevokedProxy]" and w = "0 :: nat"
      and rules = "\<lparr>properties = (\<lambda>w. []), elements = (\<lambda>w a. [throwing_rule JNull])\<rparr>"]
  by simp

end
